theory Spec2Isabelle
  imports Main "HOL-Library.Multiset"
begin

section \<open>Python primitives used by the batch processors\<close>

text \<open>
  The processors identify a work item by the string \<^verbatim>\<open>f"Report_{report_num}"\<close> and
  recover the number with \<^verbatim>\<open>int(report_id.replace('Report_', ''))\<close>. Both directions
  are modelled on byte strings: \<open>str_int\<close> is Python's \<^verbatim>\<open>str\<close> on an \<^verbatim>\<open>int\<close>,
  \<open>py_int\<close> is \<^verbatim>\<open>int\<close> on a \<^verbatim>\<open>str\<close> (surrounding whitespace, an optional sign,
  decimal digits with single underscores between them), restricted to ASCII: digits and
  spaces beyond ASCII are not representable in a byte and are rejected.
\<close>

datatype py_error = ZeroDivisionError | IndexError | IOError

definition digit_char :: "nat \<Rightarrow> char" where
  "digit_char d = char_of (48 + d)"

definition is_digit :: "char \<Rightarrow> bool" where
  "is_digit c = (48 \<le> (of_char c :: nat) \<and> (of_char c :: nat) \<le> 57)"

definition digit_val :: "char \<Rightarrow> nat" where
  "digit_val c = of_char c - 48"

function str_nat :: "nat \<Rightarrow> string" where
  "str_nat n = (if n < 10 then [digit_char n] else str_nat (n div 10) @ [digit_char (n mod 10)])"
  by pat_completeness auto
termination
  by (relation "measure id") auto

declare str_nat.simps [simp del]

definition str_int :: "int \<Rightarrow> string" where
  "str_int n = (if n < 0 then CHR ''-'' # str_nat (nat (- n)) else str_nat (nat n))"

definition is_space :: "char \<Rightarrow> bool" where
  "is_space c = ((of_char c :: nat) \<in> {9, 10, 11, 12, 13, 28, 29, 30, 31, 32})"

definition py_strip :: "string \<Rightarrow> string" where
  "py_strip s = rev (dropWhile is_space (rev (dropWhile is_space s)))"

text \<open>
  \<open>parse_digits prev acc s\<close> reads the digit part of an integer literal: \<open>prev\<close> says
  that the previous character was a digit, which an underscore and the end of the
  literal both require.
\<close>

fun parse_digits :: "bool \<Rightarrow> nat \<Rightarrow> string \<Rightarrow> nat option" where
  "parse_digits prev acc [] = (if prev then Some acc else None)"
| "parse_digits prev acc (c # cs) =
     (if is_digit c then parse_digits True (acc * 10 + digit_val c) cs
      else if c = CHR ''_'' \<and> prev then parse_digits False acc cs
      else None)"

text \<open>The value of a run of digits, read from the left.\<close>

definition digits_value :: "nat \<Rightarrow> string \<Rightarrow> nat" where
  "digits_value acc s = foldl (\<lambda>a c. a * 10 + digit_val c) acc s"

definition py_int :: "string \<Rightarrow> int option" where
  "py_int s =
     (case py_strip s of
        [] \<Rightarrow> None
      | c # cs \<Rightarrow>
          if c = CHR ''-'' then map_option (\<lambda>n. - int n) (parse_digits False 0 cs)
          else if c = CHR ''+'' then map_option int (parse_digits False 0 cs)
          else map_option int (parse_digits False 0 (c # cs)))"

text \<open>
  \<^verbatim>\<open>s.replace('Report_', '')\<close>: every non-overlapping occurrence, from the left, is
  removed.
\<close>

function replace_Report :: "string \<Rightarrow> string" where
  "replace_Report s =
     (if s = [] then []
      else if take 7 s = ''Report_'' then replace_Report (drop 7 s)
      else hd s # replace_Report (tl s))"
  by pat_completeness auto
termination
  by (relation "measure length") (auto simp: less_Suc_eq_le)

declare replace_Report.simps [simp del]

definition report_id_of :: "int \<Rightarrow> string" where
  "report_id_of report_num = ''Report_'' @ str_int report_num"

definition report_number :: "string \<Rightarrow> int option" where
  "report_number report_id = py_int (replace_Report report_id)"

text \<open>
  \<^verbatim>\<open>s.replace(old, new)\<close> for any two texts, \<^verbatim>\<open>os.path.splitext(path)[-1]\<close> (the last
  dot of the file name and what follows it, unless only dots come before it), and the
  test that \<^verbatim>\<open>pandas.ExcelWriter\<close> makes on the path it is given, before it opens
  anything: \<^verbatim>\<open>check_extension\<close> drops a leading dot and raises \<^verbatim>\<open>ValueError\<close> unless
  the rest occurs in one of the extensions of the engine, which are \<^verbatim>\<open>.xlsx\<close> and
  \<^verbatim>\<open>.xlsm\<close> for \<^verbatim>\<open>openpyxl\<close>.
\<close>

function replace_from :: "string \<Rightarrow> string \<Rightarrow> string \<Rightarrow> string" where
  "replace_from old new s =
     (if s = [] \<or> old = [] then s
      else if take (length old) s = old then new @ replace_from old new (drop (length old) s)
      else hd s # replace_from old new (tl s))"
  by pat_completeness auto
termination
  by (relation "measure (\<lambda>(old, new, s). length s)") (auto simp: less_Suc_eq_le)

declare replace_from.simps [simp del]

definition py_replace :: "string \<Rightarrow> string \<Rightarrow> string \<Rightarrow> string" where
  "py_replace old new s =
     (if old = [] then new @ concat (map (\<lambda>c. c # new) s) else replace_from old new s)"

definition splitext_ext :: "string \<Rightarrow> string" where
  "splitext_ext path =
     (let filename = rev (takeWhile (\<lambda>c. c \<noteq> CHR ''/'') (rev path));
          tail = takeWhile (\<lambda>c. c \<noteq> CHR ''.'') (rev filename);
          stem = take (length filename - length tail - 1) filename
      in if CHR ''.'' \<in> set filename \<and> dropWhile (\<lambda>c. c = CHR ''.'') stem \<noteq> []
         then CHR ''.'' # rev tail
         else [])"

fun is_substring :: "string \<Rightarrow> string \<Rightarrow> bool" where
  "is_substring s [] = (s = [])"
| "is_substring s (c # cs) = (take (length s) (c # cs) = s \<or> is_substring s cs)"

definition check_extension :: "string \<Rightarrow> bool" where
  "check_extension ext =
     (let e = (if take 1 ext = ''.'' then drop 1 ext else ext)
      in is_substring e ''.xlsx'' \<or> is_substring e ''.xlsm'')"

definition excel_writer_accepts :: "string \<Rightarrow> bool" where
  "excel_writer_accepts path = check_extension (splitext_ext path)"

section \<open>Range formatting\<close>

fun join :: "string \<Rightarrow> string list \<Rightarrow> string" where
  "join sep [] = []"
| "join sep [t] = t"
| "join sep (t # u # ts) = t @ sep @ join sep (u # ts)"

definition range_token :: "int \<Rightarrow> int \<Rightarrow> string" where
  "range_token start end = (if start = end then str_int start else str_int start @ ''-'' @ str_int end)"

text \<open>
  The loop of \<^verbatim>\<open>_format_ranges\<close> over \<^verbatim>\<open>numbers[1:] + [None]\<close>, with its three
  variables \<^verbatim>\<open>start\<close>, \<^verbatim>\<open>end\<close> and \<^verbatim>\<open>ranges\<close>.
\<close>

fun format_loop :: "int \<Rightarrow> int \<Rightarrow> string list \<Rightarrow> int option list \<Rightarrow> string list" where
  "format_loop start end ranges [] = ranges"
| "format_loop start end ranges (None # rest) =
     format_loop start end (ranges @ [range_token start end]) rest"
| "format_loop start end ranges (Some num # rest) =
     (if num \<noteq> end + 1 then format_loop num num (ranges @ [range_token start end]) rest
      else format_loop start num ranges rest)"

definition format_ranges :: "int list \<Rightarrow> string" where
  "format_ranges numbers =
     (case numbers of
        [] \<Rightarrow> ''None''
      | n # ns \<Rightarrow> join '', '' (format_loop n n [] (map Some ns @ [None])))"

text \<open>
  The reading of a range string that the round trip is stated against: the string is cut
  at every comma followed by a space, a token without an inner dash is one number, and a
  token \<open>a-b\<close> (the dash being the first one after the token's first character, which
  may be a sign) is the inclusive sequence from \<open>a\<close> to \<open>b\<close>.
\<close>

function split_comma_space :: "string \<Rightarrow> string list" where
  "split_comma_space s =
     (if s = [] then [[]]
      else if take 2 s = '', '' then [] # split_comma_space (drop 2 s)
      else (case split_comma_space (tl s) of
              [] \<Rightarrow> [[hd s]]
            | t # ts \<Rightarrow> (hd s # t) # ts))"
  by pat_completeness auto
termination
  by (relation "measure length") (auto simp: less_Suc_eq_le)

declare split_comma_space.simps [simp del]

definition expand_token :: "string \<Rightarrow> int list option" where
  "expand_token t =
     (case t of
        [] \<Rightarrow> None
      | c # cs \<Rightarrow>
          (let a = takeWhile (\<lambda>x. x \<noteq> CHR ''-'') cs; rest = dropWhile (\<lambda>x. x \<noteq> CHR ''-'') cs
           in if rest = [] then map_option (\<lambda>n. [n]) (py_int t)
              else (case (py_int (c # a), py_int (tl rest)) of
                      (Some x, Some y) \<Rightarrow> Some [x .. y]
                    | _ \<Rightarrow> None)))"

fun expand_tokens :: "string list \<Rightarrow> int list option" where
  "expand_tokens [] = Some []"
| "expand_tokens (t # ts) =
     (case (expand_token t, expand_tokens ts) of
        (Some xs, Some ys) \<Rightarrow> Some (xs @ ys)
      | _ \<Rightarrow> None)"

definition expand_ranges :: "string \<Rightarrow> int list option" where
  "expand_ranges s = expand_tokens (split_comma_space s)"

section \<open>Data model\<close>

text \<open>
  A row of the source catalog, as the loops read it:
  \<^verbatim>\<open>str(row.get('report_name', 'Unknown'))\<close> and so on, so that a missing cell is the
  text \<^verbatim>\<open>nan\<close>.
\<close>

record catalog_row =
  report_name :: string
  description :: string
  sql_query :: string

text \<open>
  A result row. The five fields that \<^verbatim>\<open>parse_gemini_response\<close> derives from the
  response are a function of the response text and are kept as that text.
\<close>

record result_record =
  report_id :: string
  original_report_name :: string
  original_description :: string
  original_sql_query :: string
  raw_response :: string
  processing_timestamp :: nat

record failure_record =
  failed_report_id :: string
  error_msg :: string
  failed_report_name :: string

datatype 'a on_disk = Absent | Corrupt | Content 'a

record summary =
  total_in_dataset :: nat
  successfully_processed :: nat
  failed_count :: nat
  last_updated :: nat

text \<open>
  The master workbook: sheets \<^verbatim>\<open>Business_Context_Results\<close>, \<^verbatim>\<open>Processing_Summary\<close>
  and \<^verbatim>\<open>Failed_Reports\<close> (the last one is written only when there are failures, so an
  empty list stands for no sheet).
\<close>

record workbook =
  results_sheet :: "result_record list"
  summary_sheet :: summary
  failed_sheet :: "failure_record list"

record state_doc =
  doc_processed_reports :: "string set"
  doc_failed_reports :: "failure_record list"
  last_save :: nat
  total_processed :: nat

text \<open>
  What a write can run into. The disk decides: \<open>pending_faults\<close> lists the outcome of
  the coming flushes, one entry per flush that reaches the write phase (none left means
  no fault). A failed write of a temporary file leaves a partial file behind.
\<close>

datatype flush_fault =
  NoFault | TempWriteFails | RenameFails | StateWriteFails | StateRenameFails

record files =
  excel_file :: "catalog_row list on_disk"
  master_file :: "workbook on_disk"
  master_temp :: "workbook on_disk"
  state_file :: "state_doc on_disk"
  state_temp :: "state_doc on_disk"
  progress_files :: "workbook on_disk list"
  emergency_backups :: "result_record list list"
  pending_faults :: "flush_fault list"

definition next_fault :: "files \<Rightarrow> flush_fault" where
  "next_fault fs = (case pending_faults fs of [] \<Rightarrow> NoFault | f # _ \<Rightarrow> f)"

definition pop_fault :: "files \<Rightarrow> files" where
  "pop_fault fs = fs\<lparr>pending_faults := tl (pending_faults fs)\<rparr>"

text \<open>
  The external collaborators: whether the API key is configured, what
  \<^verbatim>\<open>call_gemini_api\<close> gives for a report id (a text, \<^verbatim>\<open>None\<close> for a blocked, empty or
  failed call, or an exception escaping the item's processing), and the clock.
\<close>

datatype api_outcome = Response string | NoResponse | Raised string

record world =
  api_key_ok :: bool
  gemini :: "string \<Rightarrow> api_outcome"
  now :: nat

text \<open>
  The fields of \<^verbatim>\<open>BulletproofProcessor\<close>; \<open>api_calls\<close> is the trace of the report ids
  handed to \<^verbatim>\<open>call_gemini_api\<close>, kept to state what a run has asked of the service.
\<close>

record processor =
  processed_reports :: "string set"
  all_results :: "result_record list"
  failed_reports :: "failure_record list"
  interrupted :: bool
  api_calls :: "string list"

definition init_processor :: processor where
  "init_processor =
     \<lparr>processed_reports = {}, all_results = [], failed_reports = [], interrupted = False,
      api_calls = []\<rparr>"

definition save_frequency :: nat where
  "save_frequency = 5"

text \<open>
  How a loop and how a call end: a loop runs to its end or the process exits from
  within it (\<^verbatim>\<open>sys.exit(0)\<close>); a call returns its boolean, exits, or lets an
  exception escape.
\<close>

datatype 's loop_end = Completed 's | SysExit 's

datatype 's run = Returned bool 's | Exited 's | Raises py_error 's

section \<open>Completion ledger\<close>

text \<open>
  \<^verbatim>\<open>BulletproofProcessor.load_existing_work\<close>: an absent master file is skipped, and
  so is one that cannot be read (the exception is caught and reported on the console);
  the same for the state file. A row is taken when its id is truthy. Ids are texts here,
  so that the empty text is the only falsy one; a cell that is no text (an empty cell
  comes back from the workbook as a truthy NaN) behaves like a text that is not a
  number and is not modelled apart.
\<close>

definition truthy_id :: "result_record \<Rightarrow> bool" where
  "truthy_id row = (report_id row \<noteq> [])"

definition load_existing_work :: "files \<Rightarrow> processor \<Rightarrow> processor" where
  "load_existing_work fs p =
     (let p1 = (case master_file fs of
                  Content df \<Rightarrow>
                    p\<lparr>processed_reports :=
                        processed_reports p \<union> report_id ` set (filter truthy_id (results_sheet df)),
                      all_results := all_results p @ filter truthy_id (results_sheet df)\<rparr>
                | _ \<Rightarrow> p)
      in (case state_file fs of
            Content state_data \<Rightarrow> p1\<lparr>failed_reports := doc_failed_reports state_data\<rparr>
          | _ \<Rightarrow> p1))"

text \<open>
  \<^verbatim>\<open>BulletproofRecovery.load_existing_work\<close>: the master file as above, then every
  progress file, from which only rows with an id not seen so far are taken.
\<close>

fun recover_rows :: "result_record list \<Rightarrow> processor \<Rightarrow> processor" where
  "recover_rows [] p = p"
| "recover_rows (row # rows) p =
     (if truthy_id row \<and> report_id row \<notin> processed_reports p
      then recover_rows rows
             (p\<lparr>processed_reports := insert (report_id row) (processed_reports p),
               all_results := all_results p @ [row]\<rparr>)
      else recover_rows rows p)"

fun recover_files :: "workbook on_disk list \<Rightarrow> processor \<Rightarrow> processor" where
  "recover_files [] p = p"
| "recover_files (Content df # fls) p = recover_files fls (recover_rows (results_sheet df) p)"
| "recover_files (_ # fls) p = recover_files fls p"

definition recovery_load_existing_work :: "files \<Rightarrow> processor \<Rightarrow> processor" where
  "recovery_load_existing_work fs p =
     (let p1 = (case master_file fs of
                  Content df \<Rightarrow>
                    p\<lparr>processed_reports :=
                        processed_reports p \<union> report_id ` set (filter truthy_id (results_sheet df)),
                      all_results := all_results p @ filter truthy_id (results_sheet df)\<rparr>
                | _ \<Rightarrow> p);
          p2 = recover_files (progress_files fs) p1
      in (case state_file fs of
            Content recovery_data \<Rightarrow> p2\<lparr>failed_reports := doc_failed_reports recovery_data\<rparr>
          | _ \<Rightarrow> p2))"

section \<open>Gap resolver\<close>

text \<open>
  \<^verbatim>\<open>identify_missing_reports\<close>: the processed ids that parse as a number are
  collected, and the sorted difference with \<^verbatim>\<open>range(1, total_reports + 1)\<close> is returned.
  The progress lines print \<^verbatim>\<open>len(processed_numbers)/total_reports\<close>, which raises on an
  empty catalog before the list is returned.
\<close>

definition processed_numbers :: "string set \<Rightarrow> int set" where
  "processed_numbers ids = Option.these (report_number ` ids)"

definition missing_numbers :: "nat \<Rightarrow> string set \<Rightarrow> int list" where
  "missing_numbers total_reports ids =
     sorted_list_of_set ({1 .. int total_reports} - processed_numbers ids)"

definition identify_missing_reports :: "files \<Rightarrow> processor \<Rightarrow> py_error + int list" where
  "identify_missing_reports fs p =
     (case excel_file fs of
        Content df_original \<Rightarrow>
          if length df_original = 0 then Inl ZeroDivisionError
          else Inr (missing_numbers (length df_original) (processed_reports p))
      | _ \<Rightarrow> Inl IOError)"

text \<open>
  \<^verbatim>\<open>get_current_status\<close> of the small and the large batch processor reads the ids from
  the master file itself (with no handler around the read) and returns the counts with
  the list; the completion rate divides by the catalog size.
\<close>

record status =
  total_reports :: nat
  processed_count :: nat
  missing_count :: nat
  status_missing_numbers :: "int list"

definition get_current_status :: "files \<Rightarrow> py_error + status" where
  "get_current_status fs =
     (case master_file fs of
        Corrupt \<Rightarrow> Inl IOError
      | mf \<Rightarrow>
          (let ids = (case mf of Content df \<Rightarrow> report_id ` set (results_sheet df) | _ \<Rightarrow> {})
           in case excel_file fs of
                Content df_original \<Rightarrow>
                  if length df_original = 0 then Inl ZeroDivisionError
                  else Inr \<lparr>total_reports = length df_original,
                            processed_count = card (processed_numbers ids),
                            missing_count = length (missing_numbers (length df_original) ids),
                            status_missing_numbers = missing_numbers (length df_original) ids\<rparr>
              | _ \<Rightarrow> Inl IOError))"

section \<open>Atomic persister\<close>

definition extract_number :: "result_record \<Rightarrow> int" where
  "extract_number result = (case report_number (report_id result) of Some num \<Rightarrow> num | None \<Rightarrow> 0)"

definition remove_temps :: "files \<Rightarrow> files" where
  "remove_temps fs = fs\<lparr>master_temp := Absent, state_temp := Absent\<rparr>"

text \<open>
  \<^verbatim>\<open>BulletproofProcessor.save_all_progress\<close>. The buffer is sorted in place before the
  \<^verbatim>\<open>try\<close>; inside it the catalog is read for the summary (whose completion rate
  divides by the catalog size), the workbook goes to the temporary file and is renamed
  onto the master file, and the state document follows in the same way. The handler
  removes both temporary files.
\<close>

definition save_all_progress :: "world \<Rightarrow> processor \<Rightarrow> files \<Rightarrow> processor \<times> files" where
  "save_all_progress w p fs =
     (if all_results p = [] then (p, fs)
      else
        let p' = p\<lparr>all_results := sort_key extract_number (all_results p)\<rparr> in
        (case excel_file fs of
           Content df \<Rightarrow>
             if length df = 0 then (p', remove_temps fs)
             else
               let fault = next_fault fs;
                   fs0 = pop_fault fs;
                   book = \<lparr>results_sheet = all_results p',
                           summary_sheet = \<lparr>total_in_dataset = length df,
                                            successfully_processed = length (all_results p'),
                                            failed_count = length (failed_reports p'),
                                            last_updated = now w\<rparr>,
                           failed_sheet = failed_reports p'\<rparr>;
                   state_data = \<lparr>doc_processed_reports = processed_reports p',
                                 doc_failed_reports = failed_reports p',
                                 last_save = now w,
                                 total_processed = length (all_results p')\<rparr>
               in if fault = TempWriteFails then (p', remove_temps (fs0\<lparr>master_temp := Corrupt\<rparr>))
                  else if fault = RenameFails
                    then (p', remove_temps (fs0\<lparr>master_temp := Content book\<rparr>))
                  else
                    let fs1 = fs0\<lparr>master_file := Content book, master_temp := Absent\<rparr>
                    in if fault = StateWriteFails
                         then (p', remove_temps (fs1\<lparr>state_temp := Corrupt\<rparr>))
                       else if fault = StateRenameFails
                         then (p', remove_temps (fs1\<lparr>state_temp := Content state_data\<rparr>))
                       else (p', fs1\<lparr>state_file := Content state_data, state_temp := Absent\<rparr>)
         | _ \<Rightarrow> (p', remove_temps fs)))"

text \<open>
  The names of the master files: \<^verbatim>\<open>self.master_file\<close> of the bulletproof and of the
  batch processors, whose temporary file is
  \<^verbatim>\<open>self.master_file.replace('.xlsx', '_temp.xlsx')\<close>, and
  \<^verbatim>\<open>self.master_results_file\<close> of the recovery script, whose temporary file is
  \<^verbatim>\<open>f"{self.master_results_file}.tmp"\<close>. In a run of the recovery script the fields
  \<open>master_file\<close>, \<open>master_temp\<close>, \<open>state_file\<close> and \<open>state_temp\<close> of the disk stand for
  \<^verbatim>\<open>MASTER_RESULTS.xlsx\<close>, its temporary file, \<^verbatim>\<open>RECOVERY_STATE.json\<close> and its
  temporary file.
\<close>

definition master_file_name :: string where
  "master_file_name = ''MASTER_BULLETPROOF_RESULTS.xlsx''"

definition master_results_file :: string where
  "master_results_file = ''MASTER_RESULTS.xlsx''"

text \<open>
  \<^verbatim>\<open>BulletproofRecovery.save_master_results\<close>: the catalog is read and the summary is
  built before the \<^verbatim>\<open>try\<close>, so these two failures leave the function as exceptions.
  The \<^verbatim>\<open>try\<close> starts with \<^verbatim>\<open>pd.ExcelWriter(temp_file, engine='openpyxl')\<close>, which
  tests the extension of \<^verbatim>\<open>temp_file\<close> and raises when it does not accept it; the
  handler removes the temporary file if there is one and the function returns the empty
  text. Past that test, the \<^verbatim>\<open>try\<close> covers the write of the temporary file and the
  rename. The state document is not written here. The result is the path of the master
  file, or the empty text.
\<close>

definition save_master_results :: "world \<Rightarrow> processor \<Rightarrow> files \<Rightarrow> py_error + (bool \<times> processor \<times> files)" where
  "save_master_results w p fs =
     (if all_results p = [] then Inr (False, p, fs)
      else
        let p' = p\<lparr>all_results := sort_key extract_number (all_results p)\<rparr> in
        (case excel_file fs of
           Content df \<Rightarrow>
             if length df = 0 then Inl ZeroDivisionError
             else
               let temp_file = master_results_file @ ''.tmp'' in
               if \<not> excel_writer_accepts temp_file then Inr (False, p', fs\<lparr>master_temp := Absent\<rparr>)
               else
                 let fault = next_fault fs;
                     fs0 = pop_fault fs;
                     book = \<lparr>results_sheet = all_results p',
                             summary_sheet = \<lparr>total_in_dataset = length df,
                                              successfully_processed = length (all_results p'),
                                              failed_count = length (failed_reports p'),
                                              last_updated = now w\<rparr>,
                             failed_sheet = failed_reports p'\<rparr>
                 in if fault = TempWriteFails
                      then Inr (False, p', (fs0\<lparr>master_temp := Corrupt\<rparr>)\<lparr>master_temp := Absent\<rparr>)
                    else if fault = RenameFails
                      then Inr (False, p', (fs0\<lparr>master_temp := Content book\<rparr>)\<lparr>master_temp := Absent\<rparr>)
                    else Inr (True, p', fs0\<lparr>master_file := Content book, master_temp := Absent\<rparr>)
         | _ \<Rightarrow> Inl IOError))"

text \<open>
  \<^verbatim>\<open>BulletproofRecovery.save_recovery_state\<close> writes the processed ids and the failure
  records to a temporary file and renames it onto the recovery file; the handler removes
  the temporary file. The write is a flush of its own on the disk: it takes the next
  entry of \<open>pending_faults\<close>, and any fault there makes it fail. The recovery document
  has no count of results; that field of the record is left at 0.
\<close>

definition save_recovery_state :: "world \<Rightarrow> processor \<Rightarrow> files \<Rightarrow> files" where
  "save_recovery_state w p fs =
     (let fault = next_fault fs;
          fs0 = pop_fault fs;
          recovery_data = \<lparr>doc_processed_reports = processed_reports p,
                           doc_failed_reports = failed_reports p,
                           last_save = now w,
                           total_processed = 0\<rparr>
      in if fault = NoFault then fs0\<lparr>state_file := Content recovery_data, state_temp := Absent\<rparr>
         else fs0\<lparr>state_temp := Absent\<rparr>)"

section \<open>Checkpointed executor of the bulletproof processor\<close>

text \<open>
  \<^verbatim>\<open>df.iloc[k]\<close>: a negative position counts from the end, a position outside the
  frame raises.
\<close>

definition iloc :: "'a list \<Rightarrow> int \<Rightarrow> 'a option" where
  "iloc df k =
     (let n = int (length df); j = (if k < 0 then n + k else k)
      in if 0 \<le> j \<and> j < n then Some (df ! nat j) else None)"

definition missing_essential :: "catalog_row \<Rightarrow> bool" where
  "missing_essential row =
     (report_name row = [] \<or> report_name row = ''nan'' \<or> sql_query row = [] \<or> sql_query row = ''nan'')"

definition record_failure :: "string \<Rightarrow> string \<Rightarrow> string \<Rightarrow> processor \<Rightarrow> processor" where
  "record_failure rid msg name p =
     p\<lparr>failed_reports := failed_reports p @
         [\<lparr>failed_report_id = rid, error_msg = msg, failed_report_name = name\<rparr>]\<rparr>"

definition make_result :: "world \<Rightarrow> string \<Rightarrow> catalog_row \<Rightarrow> string \<Rightarrow> result_record" where
  "make_result w rid row response =
     \<lparr>report_id = rid, original_report_name = report_name row,
      original_description = description row, original_sql_query = sql_query row,
      raw_response = response, processing_timestamp = now w\<rparr>"

text \<open>
  One pass through the body of the loop of \<^verbatim>\<open>process_missing_reports\<close> for the item
  at position \<open>i\<close>. The two \<^verbatim>\<open>continue\<close> statements (missing data, and the handler of
  an unexpected exception) leave the body before the save at every fifth position.
\<close>

definition process_item :: "world \<Rightarrow> catalog_row list \<Rightarrow> nat \<Rightarrow> int \<Rightarrow> processor \<times> files \<Rightarrow> processor \<times> files" where
  "process_item w df i report_num pf =
     (let p = fst pf; fs = snd pf; rid = report_id_of report_num
      in case iloc df (report_num - 1) of
           None \<Rightarrow>
             (record_failure rid ''Unexpected error: single positional indexer is out-of-bounds''
                ''Unknown'' p, fs)
         | Some row \<Rightarrow>
             if missing_essential row
               then (record_failure rid ''Missing essential data'' (report_name row) p, fs)
             else
               let p1 = p\<lparr>api_calls := api_calls p @ [rid]\<rparr>
               in case gemini w rid of
                    Raised e \<Rightarrow> (record_failure rid (''Unexpected error: '' @ e) ''Unknown'' p1, fs)
                  | response \<Rightarrow>
                      let p2 = (case response of
                                  Response text \<Rightarrow>
                                    if text \<noteq> []
                                      then p1\<lparr>all_results := all_results p1 @ [make_result w rid row text],
                                              processed_reports := insert rid (processed_reports p1)\<rparr>
                                    else record_failure rid ''API call failed'' (report_name row) p1
                                | _ \<Rightarrow> record_failure rid ''API call failed'' (report_name row) p1)
                      in if (i + 1) mod save_frequency = 0 then save_all_progress w p2 fs
                         else (p2, fs))"

text \<open>
  \<^verbatim>\<open>handle_interrupt\<close> sets the flag, saves and exits. The signal is delivered between
  two passes of the loop: \<open>sig = Some i\<close> says that it arrives when \<open>i\<close> items have been
  handled.
\<close>

definition handle_interrupt :: "world \<Rightarrow> processor \<times> files \<Rightarrow> processor \<times> files" where
  "handle_interrupt w pf = save_all_progress w ((fst pf)\<lparr>interrupted := True\<rparr>) (snd pf)"

fun process_loop :: "world \<Rightarrow> catalog_row list \<Rightarrow> nat option \<Rightarrow> nat \<Rightarrow> int list \<Rightarrow> processor \<times> files \<Rightarrow> (processor \<times> files) loop_end" where
  "process_loop w df sig i [] pf =
     (if sig = Some i then SysExit (handle_interrupt w pf) else Completed pf)"
| "process_loop w df sig i (report_num # rest) pf =
     (if sig = Some i then SysExit (handle_interrupt w pf)
      else if interrupted (fst pf) then Completed pf
      else process_loop w df sig (i + 1) rest (process_item w df i report_num pf))"

text \<open>
  \<^verbatim>\<open>process_missing_reports\<close>: nothing to do on an empty list; the generator's
  constructor raises when the catalog file is absent; a missing API key or an unreadable
  catalog return \<^verbatim>\<open>False\<close>; otherwise the loop and the final save.
\<close>

definition process_missing_reports :: "world \<Rightarrow> nat option \<Rightarrow> int list \<Rightarrow> processor \<times> files \<Rightarrow> (processor \<times> files) run" where
  "process_missing_reports w sig missing pf =
     (if missing = [] then Returned True pf
      else case excel_file (snd pf) of
             Absent \<Rightarrow> Raises IOError pf
           | Corrupt \<Rightarrow> Returned False pf
           | Content df \<Rightarrow>
               if \<not> api_key_ok w then Returned False pf
               else (case process_loop w df sig 0 missing pf of
                       SysExit pf' \<Rightarrow> Exited pf'
                     | Completed pf' \<Rightarrow> Returned True (save_all_progress w (fst pf') (snd pf'))))"

text \<open>
  \<^verbatim>\<open>main\<close> of the bulletproof processor: load, resolve the gap, save and return when
  nothing is missing, run the executor otherwise; an exception on the way is answered by
  a save. The function has no result: \<open>Returned True\<close> stands for its plain return.
  The prompt before the executor starts is not modelled.
\<close>

definition main :: "world \<Rightarrow> nat option \<Rightarrow> files \<Rightarrow> (processor \<times> files) run" where
  "main w sig fs =
     (let processor = load_existing_work fs init_processor
      in case identify_missing_reports fs processor of
           Inl e \<Rightarrow> Returned True (save_all_progress w processor fs)
         | Inr missing_reports \<Rightarrow>
             if missing_reports = [] then Returned True (save_all_progress w processor fs)
             else (case process_missing_reports w sig missing_reports (processor, fs) of
                     Raises e pf \<Rightarrow> Returned True (save_all_progress w (fst pf) (snd pf))
                   | r \<Rightarrow> r))"

section \<open>Checkpointed executor of the recovery script\<close>

text \<open>
  The text of an exception that the handler of an item puts into the failure record. The
  text of an input or output error depends on the file; one fixed text stands for it.
\<close>

definition error_text :: "py_error \<Rightarrow> string" where
  "error_text e =
     (case e of
        ZeroDivisionError \<Rightarrow> ''division by zero''
      | IndexError \<Rightarrow> ''single positional indexer is out-of-bounds''
      | IOError \<Rightarrow> ''input/output error'')"

text \<open>
  One pass through the body of the loop of \<^verbatim>\<open>BulletproofRecovery.process_missing_reports\<close>.
  It is the body of the bulletproof processor's loop, except that the save is at every
  tenth position and consists of \<^verbatim>\<open>save_master_results\<close> followed by
  \<^verbatim>\<open>save_recovery_state\<close>. Both calls are inside the \<^verbatim>\<open>try\<close> of the item: an
  exception that leaves \<^verbatim>\<open>save_master_results\<close> (after it has sorted the buffer) is
  recorded as a failure of the item.
\<close>

definition recovery_item :: "world \<Rightarrow> catalog_row list \<Rightarrow> nat \<Rightarrow> int \<Rightarrow> processor \<times> files \<Rightarrow> processor \<times> files" where
  "recovery_item w df i report_num pf =
     (let p = fst pf; fs = snd pf; rid = report_id_of report_num
      in case iloc df (report_num - 1) of
           None \<Rightarrow>
             (record_failure rid ''Unexpected error: single positional indexer is out-of-bounds''
                ''Unknown'' p, fs)
         | Some row \<Rightarrow>
             if missing_essential row
               then (record_failure rid ''Missing essential data'' (report_name row) p, fs)
             else
               let p1 = p\<lparr>api_calls := api_calls p @ [rid]\<rparr>
               in case gemini w rid of
                    Raised e \<Rightarrow> (record_failure rid (''Unexpected error: '' @ e) ''Unknown'' p1, fs)
                  | response \<Rightarrow>
                      let p2 = (case response of
                                  Response resp \<Rightarrow>
                                    if resp \<noteq> []
                                      then p1\<lparr>all_results := all_results p1 @ [make_result w rid row resp],
                                              processed_reports := insert rid (processed_reports p1)\<rparr>
                                    else record_failure rid ''API call failed'' (report_name row) p1
                                | _ \<Rightarrow> record_failure rid ''API call failed'' (report_name row) p1)
                      in if (i + 1) mod 10 = 0
                           then (case save_master_results w p2 fs of
                                   Inl e \<Rightarrow>
                                     (record_failure rid (''Unexpected error: '' @ error_text e) ''Unknown''
                                        (p2\<lparr>all_results := sort_key extract_number (all_results p2)\<rparr>), fs)
                                 | Inr saved \<Rightarrow>
                                     (fst (snd saved), save_recovery_state w (fst (snd saved)) (snd (snd saved))))
                         else (p2, fs))"

text \<open>
  The recovery script installs no signal handler: an interrupt ends the process where it
  stands, with nothing saved. As before, \<open>sig = Some i\<close> says that it arrives when \<open>i\<close>
  items have been handled.
\<close>

fun recovery_loop :: "world \<Rightarrow> catalog_row list \<Rightarrow> nat option \<Rightarrow> nat \<Rightarrow> int list \<Rightarrow> processor \<times> files \<Rightarrow> (processor \<times> files) loop_end" where
  "recovery_loop w df sig i [] pf = (if sig = Some i then SysExit pf else Completed pf)"
| "recovery_loop w df sig i (report_num # rest) pf =
     (if sig = Some i then SysExit pf
      else recovery_loop w df sig (i + 1) rest (recovery_item w df i report_num pf))"

definition recovery_process_missing_reports :: "world \<Rightarrow> nat option \<Rightarrow> int list \<Rightarrow> processor \<times> files \<Rightarrow> (processor \<times> files) run" where
  "recovery_process_missing_reports w sig missing pf =
     (if missing = [] then Returned True pf
      else case excel_file (snd pf) of
             Absent \<Rightarrow> Raises IOError pf
           | Corrupt \<Rightarrow> Returned False pf
           | Content df \<Rightarrow>
               if \<not> api_key_ok w then Returned False pf
               else (case recovery_loop w df sig 0 missing pf of
                       SysExit pf' \<Rightarrow> Exited pf'
                     | Completed pf' \<Rightarrow>
                         (case save_master_results w (fst pf') (snd pf') of
                            Inl e \<Rightarrow>
                              Raises e ((fst pf')\<lparr>all_results := sort_key extract_number (all_results (fst pf'))\<rparr>,
                                        snd pf')
                          | Inr saved \<Rightarrow>
                              Returned True
                                (fst (snd saved), save_recovery_state w (fst (snd saved)) (snd (snd saved))))))"

text \<open>
  \<^verbatim>\<open>main\<close> of the recovery script: load, resolve the gap, run the executor on what is
  missing, and call \<^verbatim>\<open>save_master_results\<close> once more at the end; an exception on the
  way is answered by \<^verbatim>\<open>save_recovery_state\<close>.
\<close>

definition recovery_final_save :: "world \<Rightarrow> processor \<times> files \<Rightarrow> (processor \<times> files) run" where
  "recovery_final_save w pf =
     (case save_master_results w (fst pf) (snd pf) of
        Inl e \<Rightarrow>
          (let p' = (fst pf)\<lparr>all_results := sort_key extract_number (all_results (fst pf))\<rparr>
           in Returned True (p', save_recovery_state w p' (snd pf)))
      | Inr saved \<Rightarrow> Returned True (snd saved))"

definition recovery_main :: "world \<Rightarrow> nat option \<Rightarrow> files \<Rightarrow> (processor \<times> files) run" where
  "recovery_main w sig fs =
     (let recovery = recovery_load_existing_work fs init_processor
      in case identify_missing_reports fs recovery of
           Inl e \<Rightarrow> Returned True (recovery, save_recovery_state w recovery fs)
         | Inr missing_reports \<Rightarrow>
             if missing_reports = [] then recovery_final_save w (recovery, fs)
             else (case recovery_process_missing_reports w sig missing_reports (recovery, fs) of
                     Raises e pf \<Rightarrow> Returned True (fst pf, save_recovery_state w (fst pf) (snd pf))
                   | Returned ok pf \<Rightarrow> if ok then recovery_final_save w pf else Returned False pf
                   | Exited pf \<Rightarrow> Exited pf))"

section \<open>Checkpointed executor of the large batch processor\<close>

definition checkpoint_frequency :: nat where
  "checkpoint_frequency = 10"

text \<open>
  \<^verbatim>\<open>save_checkpoint\<close> writes the rows it is given. Everything is inside the
  \<^verbatim>\<open>try\<close>, and the handler only returns \<^verbatim>\<open>False\<close>: a temporary file that was being
  written stays on the disk.
\<close>

definition save_checkpoint :: "world \<Rightarrow> result_record list \<Rightarrow> nat \<Rightarrow> files \<Rightarrow> bool \<times> files" where
  "save_checkpoint w results checkpoint_num fs =
     (case excel_file fs of
        Content df_original \<Rightarrow>
          if length df_original = 0 then (False, fs)
          else
            let fault = next_fault fs;
                fs0 = pop_fault fs;
                book = \<lparr>results_sheet = results,
                        summary_sheet = \<lparr>total_in_dataset = length df_original,
                                         successfully_processed = length results,
                                         failed_count = 0,
                                         last_updated = now w\<rparr>,
                        failed_sheet = []\<rparr>;
                state_data = \<lparr>doc_processed_reports = report_id ` set results,
                              doc_failed_reports = [],
                              last_save = now w,
                              total_processed = length results\<rparr>
            in if fault = TempWriteFails then (False, fs0\<lparr>master_temp := Corrupt\<rparr>)
               else if fault = RenameFails then (False, fs0\<lparr>master_temp := Content book\<rparr>)
               else
                 let fs1 = fs0\<lparr>master_file := Content book, master_temp := Absent\<rparr>
                 in if fault = StateWriteFails then (False, fs1\<lparr>state_temp := Corrupt\<rparr>)
                    else if fault = StateRenameFails
                      then (False, fs1\<lparr>state_temp := Content state_data\<rparr>)
                    else (True, fs1\<lparr>state_file := Content state_data, state_temp := Absent\<rparr>)
      | _ \<Rightarrow> (False, fs))"

text \<open>
  \<^verbatim>\<open>emergency_save\<close> puts the rows into new, timestamped files of the backup
  directory; the master file is not among them.
\<close>

definition emergency_save :: "result_record list \<Rightarrow> files \<Rightarrow> files" where
  "emergency_save results_so_far fs =
     fs\<lparr>emergency_backups := emergency_backups fs @ [results_so_far]\<rparr>"

text \<open>
  The local variables of \<^verbatim>\<open>process_large_batch\<close> and the flag of the object. A
  failure entry of this loop has no report name.
\<close>

record large_batch =
  all_existing_results :: "result_record list"
  new_results :: "result_record list"
  failed :: "failure_record list"
  checkpoint_count :: nat
  lb_interrupted :: bool
  lb_api_calls :: "string list"

definition lb_failure :: "string \<Rightarrow> string \<Rightarrow> large_batch \<Rightarrow> large_batch" where
  "lb_failure rid msg b =
     b\<lparr>failed := failed b @ [\<lparr>failed_report_id = rid, error_msg = msg, failed_report_name = []\<rparr>]\<rparr>"

definition large_batch_item :: "world \<Rightarrow> catalog_row list \<Rightarrow> int \<Rightarrow> large_batch \<times> files \<Rightarrow> large_batch \<times> files" where
  "large_batch_item w df report_num bf =
     (let b = fst bf; fs = snd bf; rid = report_id_of report_num
      in case iloc df (report_num - 1) of
           None \<Rightarrow>
             (lb_failure rid ''single positional indexer is out-of-bounds'' b,
              emergency_save (new_results b) fs)
         | Some row \<Rightarrow>
             if missing_essential row then (lb_failure rid ''Missing data'' b, fs)
             else
               let b1 = b\<lparr>lb_api_calls := lb_api_calls b @ [rid]\<rparr>
               in case gemini w rid of
                    Raised e \<Rightarrow> (lb_failure rid e b1, emergency_save (new_results b1) fs)
                  | response \<Rightarrow>
                      let b2 = (case response of
                                  Response text \<Rightarrow>
                                    if text \<noteq> []
                                      then b1\<lparr>new_results := new_results b1 @ [make_result w rid row text]\<rparr>
                                    else lb_failure rid ''API failed'' b1
                                | _ \<Rightarrow> lb_failure rid ''API failed'' b1)
                      in if length (new_results b2) > 0
                            \<and> length (new_results b2) mod checkpoint_frequency = 0
                           then
                             let b3 = b2\<lparr>checkpoint_count := checkpoint_count b2 + 1\<rparr>;
                                 current_total = all_existing_results b3 @ new_results b3;
                                 saved = save_checkpoint w current_total (checkpoint_count b3) fs
                             in if fst saved then (b3, snd saved)
                                else (b3, emergency_save (new_results b3) (snd saved))
                         else (b2, fs))"

text \<open>
  \<^verbatim>\<open>LargeBatchProcessor.handle_interrupt\<close> only sets the flag; the loop looks at the
  flag at the head of each pass, writes an emergency backup of the new rows and exits.
\<close>

fun large_batch_loop :: "world \<Rightarrow> catalog_row list \<Rightarrow> nat option \<Rightarrow> nat \<Rightarrow> int list \<Rightarrow> large_batch \<times> files \<Rightarrow> (large_batch \<times> files) loop_end" where
  "large_batch_loop w df sig i [] bf =
     Completed (if sig = Some i then ((fst bf)\<lparr>lb_interrupted := True\<rparr>, snd bf) else bf)"
| "large_batch_loop w df sig i (report_num # rest) bf =
     (let bf1 = (if sig = Some i then ((fst bf)\<lparr>lb_interrupted := True\<rparr>, snd bf) else bf)
      in if lb_interrupted (fst bf1)
           then SysExit (fst bf1, emergency_save (new_results (fst bf1)) (snd bf1))
         else large_batch_loop w df sig (i + 1) rest (large_batch_item w df report_num bf1))"

definition init_large_batch :: "result_record list \<Rightarrow> large_batch" where
  "init_large_batch existing =
     \<lparr>all_existing_results = existing, new_results = [], failed = [], checkpoint_count = 0,
      lb_interrupted = False, lb_api_calls = []\<rparr>"

definition process_large_batch :: "world \<Rightarrow> nat option \<Rightarrow> int list \<Rightarrow> files \<Rightarrow> (large_batch \<times> files) run" where
  "process_large_batch w sig batch_reports fs =
     (if batch_reports = [] then Raises IndexError (init_large_batch [], fs)
      else case master_file fs of
             Corrupt \<Rightarrow> Raises IOError (init_large_batch [], fs)
           | mf \<Rightarrow>
               (let b = init_large_batch (case mf of Content df_baseline \<Rightarrow> results_sheet df_baseline | _ \<Rightarrow> [])
                in case excel_file fs of
                     Absent \<Rightarrow> Raises IOError (b, fs)
                   | Corrupt \<Rightarrow> Returned False (b, fs)
                   | Content df \<Rightarrow>
                       if \<not> api_key_ok w then Returned False (b, fs)
                       else (case large_batch_loop w df sig 0 batch_reports (b, fs) of
                               SysExit bf \<Rightarrow> Exited bf
                             | Completed bf \<Rightarrow>
                                 (let b' = fst bf;
                                      final_results = all_existing_results b' @ new_results b';
                                      saved = save_checkpoint w final_results (checkpoint_count b' + 1) (snd bf)
                                  in if fst saved then Returned True (b', snd saved)
                                     else Returned False (b', emergency_save (new_results b') (snd saved))))))"

text \<open>
  \<^verbatim>\<open>main\<close> of the large batch processor: the batch is the first hundred missing
  numbers of \<^verbatim>\<open>get_current_status\<close>, which is asked again after a batch that
  succeeded. Neither call has a handler around it. The prompt before the batch starts is
  not modelled.
\<close>

definition large_batch_main :: "world \<Rightarrow> nat option \<Rightarrow> files \<Rightarrow> (large_batch \<times> files) run" where
  "large_batch_main w sig fs =
     (case get_current_status fs of
        Inl e \<Rightarrow> Raises e (init_large_batch [], fs)
      | Inr status \<Rightarrow>
          if status_missing_numbers status = [] then Returned True (init_large_batch [], fs)
          else (case process_large_batch w sig (take 100 (status_missing_numbers status)) fs of
                  Returned ok bf \<Rightarrow>
                    if ok then (case get_current_status (snd bf) of
                                  Inl e \<Rightarrow> Raises e bf
                                | Inr new_status \<Rightarrow> Returned True bf)
                    else Returned False bf
                | r \<Rightarrow> r))"

section \<open>Sequential loop of the generator\<close>

text \<open>
  \<^verbatim>\<open>GeminiBusinessContextGenerator.process_reports\<close> keeps its own two lists. The row is
  read before the \<^verbatim>\<open>try\<close>, so a position outside the frame ends the call with the
  exception; everything else that an item can do wrong is caught. After every 25th result
  \<^verbatim>\<open>save_results\<close> writes a progress workbook (directly, with no temporary file, and
  catching its own exceptions).
\<close>

record generator =
  results :: "result_record list"
  gen_failed_reports :: "failure_record list"

definition gen_failure :: "string \<Rightarrow> string \<Rightarrow> string \<Rightarrow> generator \<Rightarrow> generator" where
  "gen_failure rid msg name g =
     g\<lparr>gen_failed_reports := gen_failed_reports g @
         [\<lparr>failed_report_id = rid, error_msg = msg, failed_report_name = name\<rparr>]\<rparr>"

definition save_results :: "world \<Rightarrow> catalog_row list \<Rightarrow> generator \<Rightarrow> files \<Rightarrow> files" where
  "save_results w df g fs =
     (if results g = [] then fs
      else if next_fault fs \<noteq> NoFault
        then (pop_fault fs)\<lparr>progress_files := progress_files fs @ [Corrupt]\<rparr>
      else (pop_fault fs)\<lparr>progress_files := progress_files fs @
               [Content \<lparr>results_sheet = results g,
                         summary_sheet = \<lparr>total_in_dataset = length df,
                                          successfully_processed = length (results g),
                                          failed_count = length (gen_failed_reports g),
                                          last_updated = now w\<rparr>,
                         failed_sheet = gen_failed_reports g\<rparr>]\<rparr>)"

definition generator_item :: "world \<Rightarrow> catalog_row list \<Rightarrow> int \<Rightarrow> catalog_row \<Rightarrow> generator \<times> files \<Rightarrow> generator \<times> files" where
  "generator_item w df index row gf =
     (let g = fst gf; fs = snd gf; rid = report_id_of (index + 1)
      in if missing_essential row
           then (gen_failure rid ''Missing essential data (name or SQL)'' (report_name row) g, fs)
         else case gemini w rid of
                Raised e \<Rightarrow> (gen_failure rid (''Unexpected error: '' @ e) (report_name row) g, fs)
              | response \<Rightarrow>
                  let g1 = (case response of
                              Response resp \<Rightarrow>
                                if resp \<noteq> []
                                  then g\<lparr>results := results g @ [make_result w rid row resp]\<rparr>
                                else gen_failure rid ''API call failed or content blocked'' (report_name row) g
                            | _ \<Rightarrow> gen_failure rid ''API call failed or content blocked'' (report_name row) g)
                  in if length (results g1) > 0 \<and> length (results g1) mod 25 = 0
                       then (g1, save_results w df g1 fs)
                     else (g1, fs))"

fun generator_loop :: "world \<Rightarrow> catalog_row list \<Rightarrow> int list \<Rightarrow> generator \<times> files \<Rightarrow> (generator \<times> files) run" where
  "generator_loop w df [] gf = Returned True gf"
| "generator_loop w df (index # rest) gf =
     (case iloc df index of
        None \<Rightarrow> Raises IndexError gf
      | Some row \<Rightarrow> generator_loop w df rest (generator_item w df index row gf))"

definition process_reports :: "world \<Rightarrow> catalog_row list \<Rightarrow> int \<Rightarrow> int option \<Rightarrow> generator \<times> files \<Rightarrow> (generator \<times> files) run" where
  "process_reports w df start_from_report end_at_report gf =
     (let total_reports = int (length df);
          start_index = start_from_report - 1;
          end_index = (case end_at_report of
                         None \<Rightarrow> total_reports - 1
                       | Some e \<Rightarrow> if e \<noteq> 0 then e - 1 else total_reports - 1)
      in generator_loop w df [start_index .. end_index] gf)"

section \<open>Auxiliary notions and sample inputs\<close>

text \<open>
  An item fails when its row cannot be read, when its name or query is missing, or when
  the service gives no usable text or raises.
\<close>

definition item_fails :: "world \<Rightarrow> catalog_row list \<Rightarrow> int \<Rightarrow> bool" where
  "item_fails w df report_num =
     (case iloc df (report_num - 1) of
        None \<Rightarrow> True
      | Some row \<Rightarrow>
          missing_essential row \<or>
          (case gemini w (report_id_of report_num) of Response text \<Rightarrow> text = [] | _ \<Rightarrow> True))"

definition ok_row :: catalog_row where
  "ok_row = \<lparr>report_name = ''Daily sales'', description = ''Sales per day'', sql_query = ''SELECT 1''\<rparr>"

definition bad_row :: catalog_row where
  "bad_row = \<lparr>report_name = ''Orphan'', description = ''nan'', sql_query = ''nan''\<rparr>"

definition answering :: world where
  "answering = \<lparr>api_key_ok = True, gemini = (\<lambda>rid. Response ''**Final Summary:** ok''), now = 0\<rparr>"


definition fresh_disk :: "catalog_row list \<Rightarrow> files" where
  "fresh_disk df =
     \<lparr>excel_file = Content df, master_file = Absent, master_temp = Absent, state_file = Absent,
      state_temp = Absent, progress_files = [], emergency_backups = [], pending_faults = []\<rparr>"

text \<open>
  The faults that hit a flush before the master file has been replaced: the write of the
  temporary workbook, and the rename.
\<close>

definition write_phase_fault :: "flush_fault \<Rightarrow> bool" where
  "write_phase_fault f = (f = TempWriteFails \<or> f = RenameFails)"

definition sample_result :: "int \<Rightarrow> result_record" where
  "sample_result n = make_result answering (report_id_of n) ok_row ''**Final Summary:** ok''"

definition one_result :: processor where
  "one_result = init_processor\<lparr>all_results := [sample_result 1], processed_reports := {report_id_of 1}\<rparr>"

definition failing_disk :: files where
  "failing_disk = (fresh_disk [ok_row])\<lparr>pending_faults := [TempWriteFails]\<rparr>"

text \<open>
  The rows of the master file, and the results that a processor holds in memory while the
  master file does not have them.
\<close>

definition stored_results :: "files \<Rightarrow> result_record list" where
  "stored_results fs = (case master_file fs of Content book \<Rightarrow> results_sheet book | _ \<Rightarrow> [])"

definition only_in_memory :: "processor \<times> files \<Rightarrow> result_record list" where
  "only_in_memory pf = filter (\<lambda>r. r \<notin> set (stored_results (snd pf))) (all_results (fst pf))"

text \<open>
  The state after the body of the loop has run for each of the given items, starting at
  position \<open>i\<close>: where a run stands when it is cut after these items.
\<close>

fun after_items :: "world \<Rightarrow> catalog_row list \<Rightarrow> nat \<Rightarrow> int list \<Rightarrow> processor \<times> files \<Rightarrow> processor \<times> files" where
  "after_items w df i [] pf = pf"
| "after_items w df i (report_num # rest) pf = after_items w df (i + 1) rest (process_item w df i report_num pf)"

fun lb_after_items :: "world \<Rightarrow> catalog_row list \<Rightarrow> int list \<Rightarrow> large_batch \<times> files \<Rightarrow> large_batch \<times> files" where
  "lb_after_items w df [] bf = bf"
| "lb_after_items w df (report_num # rest) bf = lb_after_items w df rest (large_batch_item w df report_num bf)"

definition run_state :: "'s run \<Rightarrow> 's" where
  "run_state r = (case r of Returned ok s \<Rightarrow> s | Exited s \<Rightarrow> s | Raises e s \<Rightarrow> s)"

definition exited :: "'s run \<Rightarrow> bool" where
  "exited r = (case r of Exited s \<Rightarrow> True | _ \<Rightarrow> False)"

text \<open>What the records of a processor say about an item.\<close>

definition known_error :: "string \<Rightarrow> bool" where
  "known_error msg =
     (msg = ''Missing essential data'' \<or> msg = ''API call failed'' \<or> take 18 msg = ''Unexpected error: '')"

definition has_failure :: "processor \<Rightarrow> int \<Rightarrow> bool" where
  "has_failure p report_num =
     (\<exists>f \<in> set (failed_reports p). failed_report_id f = report_id_of report_num \<and> known_error (error_msg f))"

definition has_result :: "processor \<Rightarrow> int \<Rightarrow> bool" where
  "has_result p report_num = (report_id_of report_num \<in> report_id ` set (all_results p))"

definition records :: "processor \<Rightarrow> nat" where
  "records p = length (all_results p) + length (failed_reports p)"

definition catalog3 :: "catalog_row list" where
  "catalog3 = [ok_row, ok_row, ok_row]"

definition catalog10 :: "catalog_row list" where
  "catalog10 = [ok_row, ok_row, ok_row, ok_row, bad_row, ok_row, ok_row, ok_row, ok_row, ok_row]"

definition catalog15 :: "catalog_row list" where
  "catalog15 = replicate 15 ok_row"

definition after_two :: "processor \<times> files" where
  "after_two = after_items answering catalog3 0 (take 2 [1, 2, 3]) (init_processor, fresh_disk catalog3)"

definition lb_after_two :: "large_batch \<times> files" where
  "lb_after_two = lb_after_items answering catalog3 (take 2 [1, 2, 3]) (init_large_batch [], fresh_disk catalog3)"

definition interrupted_batch_run :: "(large_batch \<times> files) run" where
  "interrupted_batch_run =
     process_large_batch answering (Some 12) [1, 2, 3, 4, 5, 6, 7, 8, 9, 10, 11, 12, 13, 14, 15]
       (fresh_disk catalog15)"

text \<open>
  A store that has a row with a non-empty id for every item of the catalog.
\<close>

definition store_complete :: "files \<Rightarrow> catalog_row list \<Rightarrow> workbook \<Rightarrow> bool" where
  "store_complete fs df book =
     (excel_file fs = Content df \<and> master_file fs = Content book \<and>
      (\<forall>n \<in> {1 .. int (length df)}. report_id_of n \<in> report_id ` set (results_sheet book)) \<and>
      (\<forall>r \<in> set (results_sheet book). report_id r \<noteq> []))"

text \<open>At most one row per report id, for a list of rows and for a processor with its disk.\<close>

definition keys_distinct :: "result_record list \<Rightarrow> bool" where
  "keys_distinct rs = distinct (map report_id rs)"

definition distinct_inv :: "processor \<times> files \<Rightarrow> bool" where
  "distinct_inv pf = (keys_distinct (all_results (fst pf)) \<and> keys_distinct (stored_results (snd pf)))"

definition loop_state :: "'s loop_end \<Rightarrow> 's" where
  "loop_state e = (case e of Completed s \<Rightarrow> s | SysExit s \<Rightarrow> s)"

definition book3 :: workbook where
  "book3 =
     \<lparr>results_sheet = [sample_result 1, sample_result 2, sample_result 3],
      summary_sheet = \<lparr>total_in_dataset = 3, successfully_processed = 3, failed_count = 0, last_updated = 0\<rparr>,
      failed_sheet = []\<rparr>"

definition complete_disk :: files where
  "complete_disk = (fresh_disk catalog3)\<lparr>master_file := Content book3\<rparr>"

definition partial_disk :: files where
  "partial_disk =
     (fresh_disk catalog3)
       \<lparr>master_file :=
          Content \<lparr>results_sheet = [sample_result 2],
                   summary_sheet = \<lparr>total_in_dataset = 3, successfully_processed = 1, failed_count = 0,
                                    last_updated = 0\<rparr>,
                   failed_sheet = []\<rparr>\<rparr>"


definition partial_failing_disk :: files where
  "partial_failing_disk = partial_disk\<lparr>pending_faults := [TempWriteFails]\<rparr>"

definition dup_book :: workbook where
  "dup_book =
     \<lparr>results_sheet = [sample_result 1, sample_result 1],
      summary_sheet = \<lparr>total_in_dataset = 3, successfully_processed = 2, failed_count = 0, last_updated = 0\<rparr>,
      failed_sheet = []\<rparr>"

definition dup_disk :: files where
  "dup_disk = (fresh_disk catalog3)\<lparr>master_file := Content dup_book\<rparr>"

text \<open>
  The same notions of distinct keys for the large batch processor, whose rows are the
  ones it found in the master file followed by the new ones.
\<close>

definition lb_inv :: "large_batch \<times> files \<Rightarrow> bool" where
  "lb_inv bf = (keys_distinct (all_existing_results (fst bf) @ new_results (fst bf))
                \<and> keys_distinct (stored_results (snd bf)))"

definition lb_keys :: "large_batch \<Rightarrow> string set" where
  "lb_keys b = report_id ` set (all_existing_results b @ new_results b)"

definition init_generator :: generator where
  "init_generator = \<lparr>results = [], gen_failed_reports = []\<rparr>"

text \<open>The same notions for the lists of the generator.\<close>

definition generator_error :: "string \<Rightarrow> bool" where
  "generator_error msg =
     (msg = ''Missing essential data (name or SQL)'' \<or> msg = ''API call failed or content blocked''
      \<or> take 18 msg = ''Unexpected error: '')"

definition gen_has_failure :: "generator \<Rightarrow> int \<Rightarrow> bool" where
  "gen_has_failure g report_num =
     (\<exists>f \<in> set (gen_failed_reports g). failed_report_id f = report_id_of report_num \<and> generator_error (error_msg f))"

definition gen_has_result :: "generator \<Rightarrow> int \<Rightarrow> bool" where
  "gen_has_result g report_num = (report_id_of report_num \<in> report_id ` set (results g))"

definition gen_records :: "generator \<Rightarrow> nat" where
  "gen_records g = length (results g) + length (gen_failed_reports g)"

text \<open>
  What the large batch processor has on disk between two checkpoints when no write fails:
  the rows it started from and the new results up to the last full multiple of
  \<open>checkpoint_frequency\<close>. \<open>window_due\<close> is the same just after a result has been
  appended and before the checkpoint test of that pass.
\<close>

definition saved_prefix :: "large_batch \<Rightarrow> result_record list" where
  "saved_prefix b =
     all_existing_results b @
     take (length (new_results b) - length (new_results b) mod checkpoint_frequency) (new_results b)"

definition catalog_ok :: "files \<Rightarrow> bool" where
  "catalog_ok fs = (case excel_file fs of Content df \<Rightarrow> df \<noteq> [] | _ \<Rightarrow> False)"

definition window_inv :: "large_batch \<times> files \<Rightarrow> bool" where
  "window_inv bf =
     (pending_faults (snd bf) = [] \<and> catalog_ok (snd bf) \<and>
      stored_results (snd bf) = saved_prefix (fst bf))"

definition window_due :: "large_batch \<times> files \<Rightarrow> bool" where
  "window_due bf =
     (pending_faults (snd bf) = [] \<and> catalog_ok (snd bf) \<and>
      (stored_results (snd bf) = saved_prefix (fst bf) \<or>
       length (new_results (fst bf)) > 0 \<and> length (new_results (fst bf)) mod checkpoint_frequency = 0))"

section \<open>Decimal numerals and report ids\<close>

lemma of_char_digit_char: "d < 10 \<Longrightarrow> (of_char (digit_char d) :: nat) = 48 + d"
  by (simp add: digit_char_def)

lemma is_digit_digit_char: "d < 10 \<Longrightarrow> is_digit (digit_char d)"
  by (simp add: is_digit_def of_char_digit_char)

lemma digit_val_digit_char: "d < 10 \<Longrightarrow> digit_val (digit_char d) = d"
  by (simp add: digit_val_def of_char_digit_char)

lemma str_nat_digits: "\<forall>c \<in> set (str_nat n). is_digit c"
proof (induction n rule: str_nat.induct)
  case (1 n)
  show ?case
  proof (cases "n < 10")
    case True
    then show ?thesis by (simp add: str_nat.simps [of n] is_digit_digit_char)
  next
    case False
    with 1 show ?thesis by (simp add: str_nat.simps [of n] is_digit_digit_char)
  qed
qed

lemma str_nat_nonempty: "str_nat n \<noteq> []"
  by (simp add: str_nat.simps [of n])

lemma parse_digits_all: "\<forall>c \<in> set s. is_digit c \<Longrightarrow> s \<noteq> [] \<or> prev \<Longrightarrow> parse_digits prev acc s = Some (digits_value acc s)"
  by (induction s arbitrary: prev acc) (auto simp: digits_value_def)

lemma digits_value_str_nat: "digits_value 0 (str_nat n) = n"
proof (induction n rule: str_nat.induct)
  case (1 n)
  show ?case
  proof (cases "n < 10")
    case True
    then show ?thesis by (simp add: str_nat.simps [of n] digits_value_def digit_val_digit_char)
  next
    case False
    with 1 have "digits_value 0 (str_nat (n div 10)) = n div 10" by simp
    with False show ?thesis
      by (simp add: str_nat.simps [of n] digits_value_def digit_val_digit_char)
  qed
qed

lemma is_digit_not_space: "is_digit c \<Longrightarrow> \<not> is_space c"
  by (auto simp: is_digit_def is_space_def)

lemma is_digit_neq: "is_digit c \<Longrightarrow> c \<noteq> CHR ''-'' \<and> c \<noteq> CHR ''+'' \<and> c \<noteq> CHR ''_'' \<and> c \<noteq> CHR '','' \<and> c \<noteq> CHR ''R'' \<and> c \<noteq> CHR '' ''"
  by (auto simp: is_digit_def)

lemma dropWhile_none: "\<forall>c \<in> set s. \<not> P c \<Longrightarrow> dropWhile P s = s"
  by (cases s) auto

lemma py_strip_id: "\<forall>c \<in> set s. \<not> is_space c \<Longrightarrow> py_strip s = s"
  by (simp add: py_strip_def dropWhile_none)

lemma py_int_str_nat: "py_int (str_nat n) = Some (int n)"
proof -
  have d: "\<forall>c \<in> set (str_nat n). is_digit c" by (rule str_nat_digits)
  then have s: "py_strip (str_nat n) = str_nat n"
    by (intro py_strip_id) (auto dest: is_digit_not_space)
  obtain c cs where cs: "str_nat n = c # cs"
    using str_nat_nonempty [of n] by (cases "str_nat n") auto
  with d have "is_digit c" by simp
  then have "c \<noteq> CHR ''-''" "c \<noteq> CHR ''+''" by (auto dest: is_digit_neq)
  moreover have "parse_digits False 0 (c # cs) = Some n"
    using parse_digits_all [OF d, of False 0] cs digits_value_str_nat [of n] by simp
  moreover have "py_strip (c # cs) = c # cs" using s cs by simp
  ultimately show ?thesis
    unfolding py_int_def cs by (simp del: parse_digits.simps)
qed

lemma py_int_str_int: "py_int (str_int n) = Some n"
proof (cases "n < 0")
  case False
  then show ?thesis by (simp add: str_int_def py_int_str_nat)
next
  case True
  let ?m = "nat (- n)"
  have d: "\<forall>c \<in> set (str_nat ?m). is_digit c" by (rule str_nat_digits)
  have "\<not> is_space (CHR ''-'')" by (simp add: is_space_def)
  then have "\<forall>c \<in> set (CHR ''-'' # str_nat ?m). \<not> is_space c"
    using d is_digit_not_space by auto
  then have s: "py_strip (CHR ''-'' # str_nat ?m) = CHR ''-'' # str_nat ?m"
    by (rule py_strip_id)
  have "parse_digits False 0 (str_nat ?m) = Some ?m"
    using parse_digits_all [OF d, of False 0] str_nat_nonempty [of ?m] digits_value_str_nat [of ?m]
    by simp
  with True show ?thesis by (simp add: str_int_def py_int_def s)
qed

lemma str_int_chars: "c \<in> set (str_int n) \<Longrightarrow> is_digit c \<or> c = CHR ''-''"
  using str_nat_digits by (auto simp: str_int_def split: if_splits)

lemma replace_Report_no_R: "CHR ''R'' \<notin> set s \<Longrightarrow> replace_Report s = s"
proof (induction s)
  case Nil
  show ?case by (simp add: replace_Report.simps [of "[]"])
next
  case (Cons c s)
  then have c: "c \<noteq> CHR ''R''" by auto
  have "replace_Report s = s" using Cons by simp
  with c show ?case by (subst replace_Report.simps) (simp add: take_Cons')
qed

lemma replace_Report_prefix: "replace_Report (''Report_'' @ s) = replace_Report s"
  by (subst replace_Report.simps) simp

lemma report_number_report_id_of: "report_number (report_id_of n) = Some n"
proof -
  have "CHR ''R'' \<notin> set (str_int n)"
    using str_int_chars [of "CHR ''R''" n] by (auto simp: is_digit_def)
  then show ?thesis
    by (simp add: report_number_def report_id_of_def replace_Report_prefix
        replace_Report_no_R py_int_str_int del: append.simps)
qed

lemma report_id_of_inj: "report_id_of m = report_id_of n \<Longrightarrow> m = n"
  by (metis option.inject report_number_report_id_of)

section \<open>Properties of the gap resolver and of the range format\<close>

lemma processed_numbers_report_ids: "processed_numbers (report_id_of ` S) = S"
proof -
  have "report_number ` report_id_of ` S = Some ` S"
    by (simp add: image_image report_number_report_id_of)
  then show ?thesis by (simp add: processed_numbers_def)
qed

lemma missing_numbers_set: "set (missing_numbers N P) = {1 .. int N} - processed_numbers P"
  by (simp add: missing_numbers_def)

lemma missing_numbers_sorted: "sorted (missing_numbers N P) \<and> distinct (missing_numbers N P)"
  by (simp add: missing_numbers_def)

lemma split_comma_space_nonempty: "split_comma_space s \<noteq> []"
  by (subst split_comma_space.simps) (auto split: list.splits)

lemma split_comma_space_append:
  "CHR '','' \<notin> set t \<Longrightarrow>
   split_comma_space (t @ rest) = (t @ hd (split_comma_space rest)) # tl (split_comma_space rest)"
proof (induction t)
  case Nil
  then show ?case using split_comma_space_nonempty [of rest] by simp
next
  case (Cons c t)
  then have c: "c \<noteq> CHR '',''" by auto
  have ih: "split_comma_space (t @ rest) = (t @ hd (split_comma_space rest)) # tl (split_comma_space rest)"
    using Cons by simp
  from c show ?case
    by (subst split_comma_space.simps) (simp add: ih take_Cons')
qed

lemma split_comma_space_sep: "split_comma_space ('', '' @ s) = [] # split_comma_space s"
  by (subst split_comma_space.simps) simp

lemma split_comma_space_plain: "CHR '','' \<notin> set t \<Longrightarrow> split_comma_space t = [t]"
  using split_comma_space_append [of t "[]"]
  by (simp add: split_comma_space.simps [of "[]"])

lemma split_join:
  "ts \<noteq> [] \<Longrightarrow> \<forall>t \<in> set ts. CHR '','' \<notin> set t \<Longrightarrow> split_comma_space (join '', '' ts) = ts"
proof (induction "'', ''" ts rule: join.induct)
  case 1
  then show ?case by simp
next
  case (2 t)
  then show ?case by (simp add: split_comma_space_plain)
next
  case (3 t u ts)
  then have "split_comma_space (join '', '' (u # ts)) = u # ts" by simp
  moreover have "CHR '','' \<notin> set t" using 3 by simp
  ultimately show ?case
    using split_comma_space_append [of t "'', '' @ join '', '' (u # ts)"]
    by (simp add: split_comma_space_sep del: append.simps)
qed

lemma str_int_shape: "\<exists>c cs. str_int n = c # cs \<and> (\<forall>x \<in> set cs. is_digit x)"
proof (cases "n < 0")
  case True
  then show ?thesis using str_nat_digits by (simp add: str_int_def)
next
  case False
  obtain c cs where "str_nat (nat n) = c # cs"
    using str_nat_nonempty [of "nat n"] by (cases "str_nat (nat n)") auto
  moreover have "\<forall>x \<in> set (str_nat (nat n)). is_digit x" by (rule str_nat_digits)
  ultimately show ?thesis using False by (simp add: str_int_def)
qed

lemma takeWhile_dash: "\<forall>x \<in> set cs. is_digit x \<Longrightarrow> takeWhile (\<lambda>x. x \<noteq> CHR ''-'') (cs @ CHR ''-'' # r) = cs"
  by (induction cs) (auto dest: is_digit_neq)

lemma dropWhile_dash: "\<forall>x \<in> set cs. is_digit x \<Longrightarrow> dropWhile (\<lambda>x. x \<noteq> CHR ''-'') (cs @ CHR ''-'' # r) = CHR ''-'' # r"
  by (induction cs) (auto dest: is_digit_neq)

lemma expand_token_single: "expand_token (str_int n) = Some [n]"
proof -
  obtain c cs where s: "str_int n = c # cs" and d: "\<forall>x \<in> set cs. is_digit x"
    using str_int_shape by blast
  have "py_int (c # cs) = Some n" using py_int_str_int [of n] s by simp
  moreover have "CHR ''-'' \<notin> set cs" using d is_digit_neq by blast
  ultimately show ?thesis by (simp add: expand_token_def s)
qed

lemma expand_token_pair: "expand_token (str_int a @ ''-'' @ str_int b) = Some [a .. b]"
proof -
  obtain c cs where s: "str_int a = c # cs" and d: "\<forall>x \<in> set cs. is_digit x"
    using str_int_shape by blast
  have "py_int (c # cs) = Some a" using py_int_str_int [of a] s by simp
  then show ?thesis
    by (simp add: expand_token_def s takeWhile_dash [OF d] dropWhile_dash [OF d] py_int_str_int)
qed

lemma expand_token_range: "start \<le> end \<Longrightarrow> expand_token (range_token start end) = Some [start .. end]"
  by (simp add: range_token_def expand_token_single expand_token_pair del: append.simps)

lemma range_token_no_comma: "CHR '','' \<notin> set (range_token a b)"
  using str_int_chars [of "CHR '',''" a] str_int_chars [of "CHR '',''" b]
  by (auto simp: range_token_def is_digit_def)

lemma format_loop_acc: "format_loop s e (pre @ ranges) xs = pre @ format_loop s e ranges xs"
  by (induction s e ranges xs arbitrary: pre rule: format_loop.induct) (auto simp flip: append_assoc)

lemma format_loop_Cons: "format_loop s e [t] xs = t # format_loop s e [] xs"
  using format_loop_acc [of s e "[t]" "[]" xs] by simp

lemma format_loop_expand:
  "s \<le> e \<Longrightarrow> expand_tokens (format_loop s e [] (map Some xs @ [None])) = Some ([s .. e] @ xs)"
proof (induction xs arbitrary: s e)
  case Nil
  then show ?case by (simp add: expand_token_range)
next
  case (Cons x xs)
  show ?case
  proof (cases "x = e + 1")
    case True
    have "s \<le> e + 1" using Cons.prems by simp
    then have "expand_tokens (format_loop s (e + 1) [] (map Some xs @ [None])) = Some ([s .. e + 1] @ xs)"
      by (rule Cons.IH)
    moreover have "[s .. e + 1] = [s .. e] @ [e + 1]"
      using Cons.prems by (simp add: upto_rec2)
    ultimately show ?thesis using True by simp
  next
    case False
    have "expand_tokens (format_loop x x [] (map Some xs @ [None])) = Some ([x .. x] @ xs)"
      by (rule Cons.IH) simp
    then show ?thesis
      using False Cons.prems by (simp add: format_loop_Cons expand_token_range)
  qed
qed

lemma format_loop_tokens:
  "\<forall>t \<in> set ranges. CHR '','' \<notin> set t \<Longrightarrow> \<forall>t \<in> set (format_loop s e ranges xs). CHR '','' \<notin> set t"
  by (induction s e ranges xs rule: format_loop.induct) (auto simp: range_token_no_comma)

lemma format_loop_nonempty: "format_loop s e ranges (xs @ [None]) \<noteq> []"
  by (induction s e ranges xs rule: format_loop.induct) auto


text \<open>
  Claim C10. The range string of a non-empty list of integers reads back as that list:
  cut at the commas, a lone number stands for itself and a token \<open>a-b\<close> for the
  numbers from \<open>a\<close> to \<open>b\<close>. This holds for every non-empty list, so in particular
  for the strictly increasing ones that the gap resolver produces. The empty list gives
  the text \<^verbatim>\<open>None\<close>.
\<close>

theorem format_ranges_round_trip:
  "format_ranges [] = ''None'' \<and>
   (numbers \<noteq> [] \<longrightarrow> expand_ranges (format_ranges numbers) = Some numbers)"
proof (cases numbers)
  case Nil
  then show ?thesis by (simp add: format_ranges_def)
next
  case (Cons n ns)
  let ?ts = "format_loop n n [] (map Some ns @ [None])"
  have "\<forall>t \<in> set ?ts. CHR '','' \<notin> set t"
    by (rule format_loop_tokens) simp
  then have "split_comma_space (join '', '' ?ts) = ?ts"
    by (intro split_join) (simp_all add: format_loop_nonempty)
  moreover have "expand_tokens ?ts = Some ([n .. n] @ ns)"
    by (rule format_loop_expand) simp
  ultimately show ?thesis using Cons by (simp add: format_ranges_def expand_ranges_def)
qed

theorem format_ranges_round_trip_witness:
  "format_ranges [] = ''None'' \<and> [12, 13, 14, 15, 20, 33, 34 :: int] \<noteq> [] \<and>
   expand_ranges (format_ranges [12, 13, 14, 15, 20, 33, 34]) = Some [12, 13, 14, 15, 20, 33, 34]"
  using format_ranges_round_trip [of "[12, 13, 14, 15, 20, 33, 34]"] by simp

section \<open>Flushing an empty buffer\<close>



lemma record_failure_results [simp]: "all_results (record_failure rid msg name p) = all_results p"
  by (simp add: record_failure_def)

lemma record_failure_interrupted [simp]: "interrupted (record_failure rid msg name p) = interrupted p"
  by (simp add: record_failure_def)










section \<open>Atomicity of a flush\<close>

lemma save_all_progress_write_fault:
  assumes "write_phase_fault (next_fault fs)" and "all_results p \<noteq> []"
  shows "master_file (snd (save_all_progress w p fs)) = master_file fs
       \<and> state_file (snd (save_all_progress w p fs)) = state_file fs
       \<and> master_temp (snd (save_all_progress w p fs)) = Absent"
  using assms
  by (auto simp: save_all_progress_def write_phase_fault_def remove_temps_def pop_fault_def Let_def
      split: on_disk.splits)

lemma save_all_progress_commit:
  assumes "next_fault fs = NoFault" and "all_results p \<noteq> []" and "excel_file fs = Content df" and "df \<noteq> []"
  shows "\<exists>book. master_file (snd (save_all_progress w p fs)) = Content book
        \<and> results_sheet book = sort_key extract_number (all_results p)
        \<and> master_temp (snd (save_all_progress w p fs)) = Absent"
  using assms
  by (auto simp: save_all_progress_def pop_fault_def Let_def)

text \<open>
  Whatever happens, the master file after \<^verbatim>\<open>save_all_progress\<close> is the old one or a
  complete workbook of the sorted buffer.
\<close>

lemma save_all_progress_old_or_new:
  "master_file (snd (save_all_progress w p fs)) = master_file fs \<or>
   (\<exists>book. master_file (snd (save_all_progress w p fs)) = Content book
      \<and> results_sheet book = sort_key extract_number (all_results p))"
  by (auto simp: save_all_progress_def remove_temps_def pop_fault_def Let_def split: on_disk.splits)

text \<open>
  The temporary file of the recovery script is refused by the writer, the one of the
  processors is accepted.
\<close>

lemma recovery_temp_rejected: "excel_writer_accepts (master_results_file @ ''.tmp'') = False"
  by code_simp

lemma processor_temp_accepted:
  "py_replace ''.xlsx'' ''_temp.xlsx'' master_file_name = ''MASTER_BULLETPROOF_RESULTS_temp.xlsx'' \<and>
   excel_writer_accepts (py_replace ''.xlsx'' ''_temp.xlsx'' master_file_name)"
  by code_simp

text \<open>
  Hence \<^verbatim>\<open>save_master_results\<close> never reports success and never touches the master
  file, the state file or the faults that the disk has in stock; what it does to a
  non-empty buffer is to sort it and to remove a temporary file that was lying around.
\<close>

lemma save_master_results_never_commits:
  assumes "save_master_results w p fs = Inr (ok, p', fs')"
  shows "\<not> ok \<and> fs' = (if all_results p = [] then fs else fs\<lparr>master_temp := Absent\<rparr>) \<and>
         p' = (if all_results p = [] then p else p\<lparr>all_results := sort_key extract_number (all_results p)\<rparr>)"
  using assms
  by (auto simp: save_master_results_def recovery_temp_rejected Let_def split: on_disk.splits if_splits)

lemma save_master_results_returns:
  assumes "all_results p \<noteq> []" and "excel_file fs = Content df" and "df \<noteq> []"
  shows "save_master_results w p fs
           = Inr (False, p\<lparr>all_results := sort_key extract_number (all_results p)\<rparr>, fs\<lparr>master_temp := Absent\<rparr>)"
  using assms by (simp add: save_master_results_def recovery_temp_rejected Let_def)

text \<open>
  \<^verbatim>\<open>save_checkpoint\<close> keeps the master file when the write of the temporary file or the
  rename fails, and leaves the temporary file where it is.
\<close>

lemma save_checkpoint_write_fault:
  assumes "write_phase_fault (next_fault fs)" and "excel_file fs = Content df" and "df \<noteq> []"
  shows "\<not> fst (save_checkpoint w rs c fs)
       \<and> master_file (snd (save_checkpoint w rs c fs)) = master_file fs
       \<and> master_temp (snd (save_checkpoint w rs c fs)) \<noteq> Absent"
  using assms
  by (auto simp: save_checkpoint_def write_phase_fault_def pop_fault_def Let_def)

text \<open>
  Claim C2 has every flush write the whole buffer to a temporary file, move that file
  onto the master file, and discard it when the write fails. \<^verbatim>\<open>save_all_progress\<close>
  does so. \<^verbatim>\<open>save_master_results\<close> does not get that far: with the result of
  \<^verbatim>\<open>Report_1\<close> in the buffer, a catalog of three rows, a master file that holds the row
  of \<^verbatim>\<open>Report_2\<close> and a disk on which no write fails, it returns the empty text and
  the master file is as before, because the writer refuses the name of the temporary
  file; \<^verbatim>\<open>save_all_progress\<close> writes the buffer on the same input. And when the write
  of the temporary file fails, \<^verbatim>\<open>save_checkpoint\<close> returns \<^verbatim>\<open>False\<close> with the master
  file as before and the partial temporary file still on the disk, where
  \<^verbatim>\<open>save_all_progress\<close> has removed it.
\<close>

theorem flush_protocol_violations:
  "all_results one_result = [sample_result 1]
   \<and> stored_results partial_disk = [sample_result 2]
   \<and> next_fault partial_disk = NoFault
   \<and> excel_writer_accepts (master_results_file @ ''.tmp'') = False
   \<and> save_master_results answering one_result partial_disk = Inr (False, one_result, partial_disk)
   \<and> stored_results (snd (save_all_progress answering one_result partial_disk)) = [sample_result 1]
   \<and> next_fault partial_failing_disk = TempWriteFails
   \<and> save_checkpoint answering [sample_result 1] 1 partial_failing_disk
        = (False, partial_disk\<lparr>master_temp := Corrupt\<rparr>)
   \<and> snd (save_all_progress answering one_result partial_failing_disk) = partial_disk"
  by code_simp

section \<open>Loading a corrupt store\<close>

text \<open>
  Claim C4, as stated, asks for an error when the store cannot be parsed. At a catalog of
  one row and a corrupt master file, \<^verbatim>\<open>load_existing_work\<close> returns, and the set of
  completed reports is empty.
\<close>

theorem corrupt_ledger_counterexample:
  "load_existing_work ((fresh_disk [ok_row])\<lparr>master_file := Corrupt\<rparr>) init_processor = init_processor
   \<and> processed_reports init_processor = {}"
  by (simp add: load_existing_work_def fresh_disk_def init_processor_def)

text \<open>
  Claim C4, amended. A master file that cannot be parsed is loaded exactly as an absent
  one, in the processor and in the recovery script: the exception is caught and nothing is
  raised. An absent master file gives the empty set in the processor, and in the recovery
  script as well when there is no progress file to recover rows from.
\<close>

theorem corrupt_store_loads_as_absent:
  "load_existing_work (fs\<lparr>master_file := Corrupt\<rparr>) p = load_existing_work (fs\<lparr>master_file := Absent\<rparr>) p \<and>
   processed_reports (load_existing_work (fs\<lparr>master_file := Absent\<rparr>) init_processor) = {} \<and>
   recovery_load_existing_work (fs\<lparr>master_file := Corrupt\<rparr>) p
     = recovery_load_existing_work (fs\<lparr>master_file := Absent\<rparr>) p \<and>
   (progress_files fs = [] \<longrightarrow>
      processed_reports (recovery_load_existing_work (fs\<lparr>master_file := Absent\<rparr>) init_processor) = {})"
  by (auto simp: load_existing_work_def recovery_load_existing_work_def init_processor_def Let_def
      split: on_disk.splits)

theorem corrupt_store_loads_as_absent_witness:
  "progress_files (fresh_disk [ok_row]) = [] \<and>
   processed_reports (recovery_load_existing_work ((fresh_disk [ok_row])\<lparr>master_file := Absent\<rparr>) init_processor) = {} \<and>
   load_existing_work ((fresh_disk [ok_row])\<lparr>master_file := Corrupt\<rparr>) init_processor
     = load_existing_work ((fresh_disk [ok_row])\<lparr>master_file := Absent\<rparr>) init_processor"
  using corrupt_store_loads_as_absent [of "fresh_disk [ok_row]" init_processor]
  by (simp add: fresh_disk_def)

section \<open>Completeness of the gap resolver\<close>

text \<open>
  On a catalog with at least one row the resolver returns the sorted difference: when the
  completed ids are those of a set \<open>S\<close> of numbers, the result is the ascending list of
  the numbers from 1 to the catalog size that are not in \<open>S\<close>.
\<close>

lemma gap_complete:
  assumes "excel_file fs = Content df" and "df \<noteq> []" and "processed_reports p = report_id_of ` S"
  shows "identify_missing_reports fs p = Inr (sorted_list_of_set ({1 .. int (length df)} - S))"
  using assms
  by (simp add: identify_missing_reports_def missing_numbers_def processed_numbers_report_ids)

text \<open>
  Claim C6 covers every catalog size. On the empty catalog (no completed report) the
  resolver does not return the empty list: the progress line divides by the catalog size,
  in \<^verbatim>\<open>identify_missing_reports\<close> and in \<^verbatim>\<open>get_current_status\<close> alike.
\<close>

theorem gap_resolver_empty_catalog:
  "identify_missing_reports (fresh_disk []) init_processor = Inl ZeroDivisionError \<and>
   get_current_status (fresh_disk []) = Inl ZeroDivisionError"
  by (simp add: identify_missing_reports_def get_current_status_def fresh_disk_def)

section \<open>Staleness window and interrupts\<close>

text \<open>
  Claim C3 bounds the results that exist in memory only by the save frequency. The run
  below has a catalog of ten rows whose fifth row has no query, and a service that answers
  every call. The pass for the fifth item leaves the body of the loop through
  \<^verbatim>\<open>continue\<close>, so the save that is due at that position does not happen: after nine
  items eight results are in memory and the master file does not exist yet.
\<close>

theorem staleness_exceeds_frequency:
  "process_loop answering catalog10 None 0 [1, 2, 3, 4, 5, 6, 7, 8, 9] (init_processor, fresh_disk catalog10)
     = Completed (after_items answering catalog10 0 [1, 2, 3, 4, 5, 6, 7, 8, 9] (init_processor, fresh_disk catalog10))
   \<and> length (only_in_memory (after_items answering catalog10 0 [1, 2, 3, 4, 5, 6, 7, 8, 9]
        (init_processor, fresh_disk catalog10))) = 8
   \<and> master_file (snd (after_items answering catalog10 0 [1, 2, 3, 4, 5, 6, 7, 8, 9]
        (init_processor, fresh_disk catalog10))) = Absent
   \<and> save_frequency = 5"
  by code_simp

text \<open>
  Claim C5, as stated, has every result accumulated so far in the master file after an
  interrupt. In the large batch processor, with fifteen items that all succeed and a
  signal after the twelfth, the run exits with twelve new results in memory and in an
  emergency backup, and ten rows (the checkpoint after the tenth) in the master file.
\<close>

theorem interrupt_counterexample:
  "exited interrupted_batch_run
   \<and> length (new_results (fst (run_state interrupted_batch_run))) = 12
   \<and> length (stored_results (snd (run_state interrupted_batch_run))) = 10
   \<and> map length (emergency_backups (snd (run_state interrupted_batch_run))) = [12]"
  by code_simp


lemma save_all_progress_fst:
  "fst (save_all_progress w p fs) = p\<lparr>all_results := sort_key extract_number (all_results p)\<rparr>"
  by (auto simp: save_all_progress_def Let_def split: on_disk.splits)

lemma process_item_interrupted: "interrupted (fst (process_item w df i n pf)) = interrupted (fst pf)"
  by (auto simp: process_item_def Let_def save_all_progress_fst record_failure_def
      split: option.splits api_outcome.splits)

lemma after_items_interrupted: "interrupted (fst (after_items w df i items pf)) = interrupted (fst pf)"
  by (induction items arbitrary: i pf) (simp_all add: process_item_interrupted)

lemma process_loop_completes:
  "\<not> interrupted (fst pf) \<Longrightarrow> process_loop w df None i items pf = Completed (after_items w df i items pf)"
  by (induction items arbitrary: i pf) (simp_all add: process_item_interrupted)

lemma process_loop_sigint:
  "\<not> interrupted (fst pf) \<Longrightarrow> k \<le> length items \<Longrightarrow>
   process_loop w df (Some (i + k)) i items pf
     = SysExit (handle_interrupt w (after_items w df i (take k items) pf))"
proof (induction items arbitrary: i k pf)
  case Nil
  then show ?case by simp
next
  case (Cons n items)
  show ?case
  proof (cases k)
    case 0
    then show ?thesis by simp
  next
    case (Suc j)
    have "process_loop w df (Some (Suc i + j)) (Suc i) items (process_item w df i n pf)
        = SysExit (handle_interrupt w (after_items w df (Suc i) (take j items) (process_item w df i n pf)))"
      using Cons.prems Suc by (intro Cons.IH) (simp_all add: process_item_interrupted)
    with Suc Cons.prems show ?thesis by simp
  qed
qed

lemma handle_interrupt_fst:
  "fst (handle_interrupt w pf)
     = (fst pf)\<lparr>interrupted := True, all_results := sort_key extract_number (all_results (fst pf))\<rparr>"
  by (simp add: handle_interrupt_def save_all_progress_fst)

lemma large_batch_item_interrupted:
  "lb_interrupted (fst (large_batch_item w df n bf)) = lb_interrupted (fst bf)"
  by (auto simp: large_batch_item_def Let_def lb_failure_def
      split: option.splits api_outcome.splits)

lemma large_batch_loop_sigint:
  "\<not> lb_interrupted (fst bf) \<Longrightarrow> k < length items \<Longrightarrow>
   large_batch_loop w df (Some (i + k)) i items bf
     = (let bf' = lb_after_items w df (take k items) bf
        in SysExit ((fst bf')\<lparr>lb_interrupted := True\<rparr>, emergency_save (new_results (fst bf')) (snd bf')))"
proof (induction items arbitrary: i k bf)
  case Nil
  then show ?case by simp
next
  case (Cons n items)
  show ?case
  proof (cases k)
    case 0
    then show ?thesis by (simp add: Let_def)
  next
    case (Suc j)
    have "large_batch_loop w df (Some (Suc i + j)) (Suc i) items (large_batch_item w df n bf)
        = (let bf' = lb_after_items w df (take j items) (large_batch_item w df n bf)
           in SysExit ((fst bf')\<lparr>lb_interrupted := True\<rparr>, emergency_save (new_results (fst bf')) (snd bf')))"
      using Cons.prems Suc by (intro Cons.IH) (simp_all add: large_batch_item_interrupted)
    with Suc Cons.prems show ?thesis by (simp add: Let_def)
  qed
qed


section \<open>Isolation of item failures\<close>

lemma process_item_effect:
  "(item_fails w df n \<longrightarrow> has_failure (fst (process_item w df i n (p, fs))) n) \<and>
   (\<not> item_fails w df n \<longrightarrow> has_result (fst (process_item w df i n (p, fs))) n) \<and>
   records (fst (process_item w df i n (p, fs))) = Suc (records p) \<and>
   set (all_results p) \<subseteq> set (all_results (fst (process_item w df i n (p, fs)))) \<and>
   set (failed_reports p) \<subseteq> set (failed_reports (fst (process_item w df i n (p, fs))))"
  by (auto simp: process_item_def item_fails_def Let_def save_all_progress_fst record_failure_def
      has_failure_def has_result_def records_def known_error_def make_result_def
      split: option.splits api_outcome.splits)

lemma has_failure_mono: "set (failed_reports p) \<subseteq> set (failed_reports q) \<Longrightarrow> has_failure p n \<Longrightarrow> has_failure q n"
  by (auto simp: has_failure_def)

lemma has_result_mono: "set (all_results p) \<subseteq> set (all_results q) \<Longrightarrow> has_result p n \<Longrightarrow> has_result q n"
  by (auto simp: has_result_def)

lemma after_items_effect:
  "(\<forall>n \<in> set items. item_fails w df n \<longrightarrow> has_failure (fst (after_items w df i items pf)) n) \<and>
   (\<forall>n \<in> set items. \<not> item_fails w df n \<longrightarrow> has_result (fst (after_items w df i items pf)) n) \<and>
   records (fst (after_items w df i items pf)) = records (fst pf) + length items \<and>
   set (all_results (fst pf)) \<subseteq> set (all_results (fst (after_items w df i items pf))) \<and>
   set (failed_reports (fst pf)) \<subseteq> set (failed_reports (fst (after_items w df i items pf)))"
proof (induction items arbitrary: i pf)
  case Nil
  then show ?case by simp
next
  case (Cons n items)
  obtain p fs where pf: "pf = (p, fs)" by (cases pf)
  let ?q = "process_item w df i n (p, fs)"
  let ?r = "after_items w df (i + 1) items ?q"
  note step = process_item_effect [of w df n i p fs]
  note ih = Cons.IH [of "i + 1" ?q]
  have 1: "item_fails w df n \<longrightarrow> has_failure (fst ?r) n"
    using step ih has_failure_mono by blast
  have 2: "\<not> item_fails w df n \<longrightarrow> has_result (fst ?r) n"
    using step ih has_result_mono by blast
  have 3: "records (fst ?r) = records p + length (n # items)"
    using step ih by simp
  have 4: "set (all_results p) \<subseteq> set (all_results (fst ?r))"
    "set (failed_reports p) \<subseteq> set (failed_reports (fst ?r))"
    using step ih by blast+
  show ?case using 1 2 3 4 ih by (simp add: pf)
qed

lemma generator_item_effect:
  assumes "iloc df index = Some row"
  shows "(item_fails w df (index + 1) \<longrightarrow> gen_has_failure (fst (generator_item w df index row (g, fs))) (index + 1)) \<and>
   (\<not> item_fails w df (index + 1) \<longrightarrow> gen_has_result (fst (generator_item w df index row (g, fs))) (index + 1)) \<and>
   gen_records (fst (generator_item w df index row (g, fs))) = Suc (gen_records g) \<and>
   set (results g) \<subseteq> set (results (fst (generator_item w df index row (g, fs)))) \<and>
   set (gen_failed_reports g) \<subseteq> set (gen_failed_reports (fst (generator_item w df index row (g, fs))))"
  using assms
  by (auto simp: generator_item_def item_fails_def Let_def gen_failure_def
      gen_has_failure_def gen_has_result_def gen_records_def generator_error_def make_result_def
      split: option.splits api_outcome.splits)

lemma generator_loop_effect:
  "\<forall>k \<in> set indices. 0 \<le> k \<and> k < int (length df) \<Longrightarrow>
   \<exists>g' fs'. generator_loop w df indices gf = Returned True (g', fs') \<and>
   (\<forall>k \<in> set indices. item_fails w df (k + 1) \<longrightarrow> gen_has_failure g' (k + 1)) \<and>
   (\<forall>k \<in> set indices. \<not> item_fails w df (k + 1) \<longrightarrow> gen_has_result g' (k + 1)) \<and>
   gen_records g' = gen_records (fst gf) + length indices \<and>
   set (results (fst gf)) \<subseteq> set (results g') \<and>
   set (gen_failed_reports (fst gf)) \<subseteq> set (gen_failed_reports g')"
proof (induction indices arbitrary: gf)
  case Nil
  then show ?case by (cases gf) simp
next
  case (Cons k indices)
  obtain g fs where gf: "gf = (g, fs)" by (cases gf)
  have rng: "0 \<le> k" "k < int (length df)" using Cons.prems by simp_all
  then obtain row where row: "iloc df k = Some row" by (simp add: iloc_def Let_def)
  let ?q = "generator_item w df k row (g, fs)"
  note step = generator_item_effect [OF row, of w g fs]
  from Cons.IH [of ?q] Cons.prems
  obtain g' fs' where e: "generator_loop w df indices ?q = Returned True (g', fs')"
    "\<forall>j \<in> set indices. item_fails w df (j + 1) \<longrightarrow> gen_has_failure g' (j + 1)"
    "\<forall>j \<in> set indices. \<not> item_fails w df (j + 1) \<longrightarrow> gen_has_result g' (j + 1)"
    "gen_records g' = gen_records (fst ?q) + length indices"
    "set (results (fst ?q)) \<subseteq> set (results g')"
    "set (gen_failed_reports (fst ?q)) \<subseteq> set (gen_failed_reports g')"
    by auto
  have 1: "item_fails w df (k + 1) \<longrightarrow> gen_has_failure g' (k + 1)"
    using step e(6) by (auto simp: gen_has_failure_def)
  have 2: "\<not> item_fails w df (k + 1) \<longrightarrow> gen_has_result g' (k + 1)"
    using step e(5) by (auto simp: gen_has_result_def)
  have 3: "gen_records g' = gen_records g + length (k # indices)"
    using step e(4) by simp
  have 4: "set (results g) \<subseteq> set (results g')" "set (gen_failed_reports g) \<subseteq> set (gen_failed_reports g')"
    using step e(5,6) by blast+
  show ?case using e(1-3) 1 2 3 4 row by (simp add: gf)
qed

lemma process_reports_whole_catalog:
  "\<exists>g' fs'. process_reports w df 1 None (g, fs) = Returned True (g', fs') \<and>
   (\<forall>n \<in> {1 .. int (length df)}. item_fails w df n \<longrightarrow> gen_has_failure g' n) \<and>
   (\<forall>n \<in> {1 .. int (length df)}. \<not> item_fails w df n \<longrightarrow> gen_has_result g' n) \<and>
   gen_records g' = gen_records g + length df"
proof -
  let ?ix = "[0 .. int (length df) - 1]"
  have r: "\<forall>k \<in> set ?ix. 0 \<le> k \<and> k < int (length df)" by auto
  from generator_loop_effect [OF r, of w "(g, fs)"]
  obtain g' fs' where e: "generator_loop w df ?ix (g, fs) = Returned True (g', fs')"
    "\<forall>k \<in> set ?ix. item_fails w df (k + 1) \<longrightarrow> gen_has_failure g' (k + 1)"
    "\<forall>k \<in> set ?ix. \<not> item_fails w df (k + 1) \<longrightarrow> gen_has_result g' (k + 1)"
    "gen_records g' = gen_records g + length ?ix"
    by auto
  have a: "\<forall>n \<in> {1 .. int (length df)}. item_fails w df n \<longrightarrow> gen_has_failure g' n"
  proof (intro ballI impI)
    fix n assume "n \<in> {1 .. int (length df)}" "item_fails w df n"
    then show "gen_has_failure g' n" using e(2) [rule_format, of "n - 1"] by simp
  qed
  have b: "\<forall>n \<in> {1 .. int (length df)}. \<not> item_fails w df n \<longrightarrow> gen_has_result g' n"
  proof (intro ballI impI)
    fix n assume "n \<in> {1 .. int (length df)}" "\<not> item_fails w df n"
    then show "gen_has_result g' n" using e(3) [rule_format, of "n - 1"] by simp
  qed
  have "process_reports w df 1 None (g, fs) = Returned True (g', fs')"
    using e(1) by (simp add: process_reports_def)
  then show ?thesis using a b e(4) by auto
qed

text \<open>
  Claim C8. A run of \<^verbatim>\<open>process_missing_reports\<close> that is not interrupted returns
  \<^verbatim>\<open>True\<close> whatever the items do. Every item that fails (row out of range, missing
  name or query, no usable answer of the service, exception while it is processed) has a
  failure record with its report id and an error text of one of the three known kinds;
  every other item has a result; and the run adds exactly one record per item, so no
  item is skipped and none ends the run. The loop of the generator over the whole catalog
  does the same with its own lists.
\<close>

theorem failures_are_isolated:
  assumes "\<not> interrupted p" and "excel_file fs = Content df" and "api_key_ok w"
  shows "(\<exists>p' fs'. process_missing_reports w None missing (p, fs) = Returned True (p', fs') \<and>
     (\<forall>n \<in> set missing. item_fails w df n \<longrightarrow> has_failure p' n) \<and>
     (\<forall>n \<in> set missing. \<not> item_fails w df n \<longrightarrow> has_result p' n) \<and>
     records p' = records p + length missing) \<and>
   (\<exists>g' fs'. process_reports w df 1 None (g, fs) = Returned True (g', fs') \<and>
     (\<forall>n \<in> {1 .. int (length df)}. item_fails w df n \<longrightarrow> gen_has_failure g' n) \<and>
     (\<forall>n \<in> {1 .. int (length df)}. \<not> item_fails w df n \<longrightarrow> gen_has_result g' n) \<and>
     gen_records g' = gen_records g + length df)"
proof -
  have "\<exists>p' fs'. process_missing_reports w None missing (p, fs) = Returned True (p', fs') \<and>
     (\<forall>n \<in> set missing. item_fails w df n \<longrightarrow> has_failure p' n) \<and>
     (\<forall>n \<in> set missing. \<not> item_fails w df n \<longrightarrow> has_result p' n) \<and>
     records p' = records p + length missing"
  proof (cases "missing = []")
    case True
    then show ?thesis by (simp add: process_missing_reports_def)
  next
    case False
    let ?pf = "after_items w df 0 missing (p, fs)"
    let ?end = "save_all_progress w (fst ?pf) (snd ?pf)"
    have run: "process_missing_reports w None missing (p, fs) = Returned True ?end"
      using False assms by (simp add: process_missing_reports_def process_loop_completes)
    have same: "failed_reports (fst ?end) = failed_reports (fst ?pf)"
      "set (all_results (fst ?end)) = set (all_results (fst ?pf))"
      "records (fst ?end) = records (fst ?pf)"
      by (simp_all add: save_all_progress_fst records_def)
    note eff = after_items_effect [of missing w df 0 "(p, fs)"]
    have "(\<forall>n \<in> set missing. item_fails w df n \<longrightarrow> has_failure (fst ?end) n)"
      using eff same by (auto simp: has_failure_def)
    moreover have "(\<forall>n \<in> set missing. \<not> item_fails w df n \<longrightarrow> has_result (fst ?end) n)"
      using eff same by (auto simp: has_result_def)
    moreover have "records (fst ?end) = records p + length missing"
      using eff same by simp
    ultimately show ?thesis using run by (cases ?end) auto
  qed
  then show ?thesis using process_reports_whole_catalog [of w df g fs] by blast
qed

theorem failures_are_isolated_witness:
  "\<not> interrupted init_processor \<and> excel_file (fresh_disk catalog10) = Content catalog10 \<and> api_key_ok answering \<and>
   item_fails answering catalog10 5 \<and> \<not> item_fails answering catalog10 6 \<and>
   (\<exists>p' fs'. process_missing_reports answering None [4, 5, 6] (init_processor, fresh_disk catalog10)
        = Returned True (p', fs') \<and> has_failure p' 5 \<and> has_result p' 6 \<and> records p' = 3) \<and>
   (\<exists>g' fs'. process_reports answering catalog10 1 None (init_generator, fresh_disk catalog10)
        = Returned True (g', fs') \<and> gen_has_failure g' 5 \<and> gen_has_result g' 6 \<and> gen_records g' = 10)"
proof -
  have h: "\<not> interrupted init_processor" "excel_file (fresh_disk catalog10) = Content catalog10"
    "api_key_ok answering" "records init_processor = 0" "gen_records init_generator = 0"
    "length catalog10 = 10"
    by (simp_all add: init_processor_def fresh_disk_def answering_def records_def gen_records_def
        init_generator_def catalog10_def)
  have e: "item_fails answering catalog10 5" "\<not> item_fails answering catalog10 6"
    by code_simp+
  show ?thesis
    using failures_are_isolated [OF h(1-3), of "[4, 5, 6]" init_generator] h e by auto
qed

section \<open>What an interrupt saves\<close>

lemma after_items_results_mono:
  "set (all_results (fst pf)) \<subseteq> set (all_results (fst (after_items w df i items pf)))"
  using after_items_effect [of items w df i pf] by blast

lemma handle_interrupt_commit:
  assumes "all_results (fst pf) \<noteq> []" and "next_fault (snd pf) = NoFault"
    and "excel_file (snd pf) = Content df" and "df \<noteq> []"
  shows "stored_results (snd (handle_interrupt w pf)) = sort_key extract_number (all_results (fst pf))"
  using assms
  by (simp add: handle_interrupt_def stored_results_def save_all_progress_def pop_fault_def Let_def)

text \<open>
  Claim C5, amended. When the signal arrives after \<open>k\<close> items, neither processor
  handles a further item. The bulletproof processor saves from the handler: no call to
  the service is added, the buffer still has every result it had at the start of the
  run, and when the save goes through (buffer not empty, catalog readable and not empty,
  no fault) the master file holds the whole buffer, sorted. The large batch processor
  only sets the flag; at the head of the next pass it adds an emergency backup of the new
  results and exits, and the master file and every other file stay as they were after
  the last pass.
\<close>

theorem interrupt_by_design:
  "\<not> interrupted p \<Longrightarrow> \<not> lb_interrupted b \<Longrightarrow> k < length items \<Longrightarrow>
   (let pf' = after_items w df 0 (take k items) (p, fs)
    in process_loop w df (Some k) 0 items (p, fs) = SysExit (handle_interrupt w pf') \<and>
       api_calls (fst (handle_interrupt w pf')) = api_calls (fst pf') \<and>
       set (all_results p) \<subseteq> set (all_results (fst pf')) \<and>
       (all_results (fst pf') \<noteq> [] \<and> next_fault (snd pf') = NoFault \<and>
        excel_file (snd pf') = Content df' \<and> df' \<noteq> [] \<longrightarrow>
          stored_results (snd (handle_interrupt w pf'))
            = sort_key extract_number (all_results (fst pf')))) \<and>
   (let bf' = lb_after_items w df (take k items) (b, fs)
    in large_batch_loop w df (Some k) 0 items (b, fs)
         = SysExit ((fst bf')\<lparr>lb_interrupted := True\<rparr>,
                    (snd bf')\<lparr>emergency_backups := emergency_backups (snd bf') @ [new_results (fst bf')]\<rparr>))"
proof -
  assume a: "\<not> interrupted p" "\<not> lb_interrupted b" "k < length items"
  let ?pf = "after_items w df 0 (take k items) (p, fs)"
  have 1: "process_loop w df (Some k) 0 items (p, fs) = SysExit (handle_interrupt w ?pf)"
    using process_loop_sigint [of "(p, fs)" k items w df 0] a by simp
  have 2: "api_calls (fst (handle_interrupt w ?pf)) = api_calls (fst ?pf)"
    by (simp add: handle_interrupt_fst)
  have 3: "set (all_results p) \<subseteq> set (all_results (fst ?pf))"
    using after_items_results_mono [of "(p, fs)" w df 0 "take k items"] by simp
  have 4: "all_results (fst ?pf) \<noteq> [] \<and> next_fault (snd ?pf) = NoFault \<and>
        excel_file (snd ?pf) = Content df' \<and> df' \<noteq> [] \<longrightarrow>
          stored_results (snd (handle_interrupt w ?pf)) = sort_key extract_number (all_results (fst ?pf))"
    using handle_interrupt_commit [of ?pf df' w] by blast
  have 5: "large_batch_loop w df (Some k) 0 items (b, fs)
         = (let bf' = lb_after_items w df (take k items) (b, fs)
            in SysExit ((fst bf')\<lparr>lb_interrupted := True\<rparr>,
                    (snd bf')\<lparr>emergency_backups := emergency_backups (snd bf') @ [new_results (fst bf')]\<rparr>))"
    using large_batch_loop_sigint [of "(b, fs)" k items w df 0] a by (simp add: emergency_save_def)
  show ?thesis using 1 2 3 4 5 by (simp add: Let_def)
qed

theorem interrupt_by_design_witness:
  "\<not> interrupted init_processor \<and> \<not> lb_interrupted (init_large_batch []) \<and> (2 :: nat) < length [1, 2, 3 :: int] \<and>
   all_results (fst after_two) \<noteq> [] \<and> next_fault (snd after_two) = NoFault \<and>
   excel_file (snd after_two) = Content catalog3 \<and> catalog3 \<noteq> [] \<and>
   process_loop answering catalog3 (Some 2) 0 [1, 2, 3] (init_processor, fresh_disk catalog3)
     = SysExit (handle_interrupt answering after_two) \<and>
   stored_results (snd (handle_interrupt answering after_two))
     = sort_key extract_number (all_results (fst after_two)) \<and>
   length (all_results (fst after_two)) = 2 \<and>
   large_batch_loop answering catalog3 (Some 2) 0 [1, 2, 3] (init_large_batch [], fresh_disk catalog3)
     = SysExit ((fst lb_after_two)\<lparr>lb_interrupted := True\<rparr>,
                (snd lb_after_two)\<lparr>emergency_backups := emergency_backups (snd lb_after_two) @ [new_results (fst lb_after_two)]\<rparr>) \<and>
   master_file (snd lb_after_two) = Absent"
proof -
  have h: "\<not> interrupted init_processor" "\<not> lb_interrupted (init_large_batch [])"
    "(2 :: nat) < length [1, 2, 3 :: int]"
    by (simp_all add: init_processor_def init_large_batch_def)
  have e: "all_results (fst after_two) \<noteq> []" "next_fault (snd after_two) = NoFault"
    "excel_file (snd after_two) = Content catalog3" "catalog3 \<noteq> []"
    "length (all_results (fst after_two)) = 2" "master_file (snd lb_after_two) = Absent"
    by code_simp+
  note t = interrupt_by_design [OF h, of answering catalog3 "fresh_disk catalog3" catalog3,
      unfolded Let_def, folded after_two_def lb_after_two_def]
  show ?thesis using t h e by blast
qed

section \<open>Running the pipeline again\<close>

lemma processed_numbers_member: "report_id_of n \<in> ids \<Longrightarrow> n \<in> processed_numbers ids"
  by (force simp: processed_numbers_def Option.these_def image_iff report_number_report_id_of)

lemma missing_numbers_empty:
  "\<forall>n \<in> {1 .. int N}. report_id_of n \<in> ids \<Longrightarrow> missing_numbers N ids = []"
proof -
  assume "\<forall>n \<in> {1 .. int N}. report_id_of n \<in> ids"
  then have "{1 .. int N} - processed_numbers ids = {}"
    using processed_numbers_member by blast
  then show ?thesis by (simp add: missing_numbers_def)
qed

lemma load_complete_store:
  assumes "store_complete fs df book"
  shows "all_results (load_existing_work fs init_processor) = results_sheet book"
    and "processed_reports (load_existing_work fs init_processor) = report_id ` set (results_sheet book)"
    and "api_calls (load_existing_work fs init_processor) = []"
proof -
  have f: "filter truthy_id (results_sheet book) = results_sheet book"
    using assms by (auto simp: store_complete_def truthy_id_def intro: filter_True)
  show "all_results (load_existing_work fs init_processor) = results_sheet book"
    using assms f
    by (auto simp: load_existing_work_def store_complete_def init_processor_def Let_def split: on_disk.splits)
  show "processed_reports (load_existing_work fs init_processor) = report_id ` set (results_sheet book)"
    using assms f
    by (auto simp: load_existing_work_def store_complete_def init_processor_def Let_def split: on_disk.splits)
  show "api_calls (load_existing_work fs init_processor) = []"
    by (auto simp: load_existing_work_def init_processor_def Let_def split: on_disk.splits)
qed

text \<open>
  Claim C7. When the store has a result for every item of the catalog, a run of the
  pipeline returns without a single call to the service: the gap resolver gives the empty
  list (on a catalog with at least one row), \<^verbatim>\<open>main\<close> saves and returns, and the master
  file afterwards has the same result rows as before, each as often as before.
\<close>

theorem rerun_is_idempotent:
  assumes "store_complete fs df book"
  shows "\<exists>p' fs' book'. main w sig fs = Returned True (p', fs') \<and> api_calls p' = [] \<and>
     master_file fs' = Content book' \<and> mset (results_sheet book') = mset (results_sheet book) \<and>
     (df \<noteq> [] \<longrightarrow> identify_missing_reports fs (load_existing_work fs init_processor) = Inr [])"
proof -
  let ?p = "load_existing_work fs init_processor"
  note ld = load_complete_store [OF assms]
  have ef: "excel_file fs = Content df" and mf: "master_file fs = Content book"
    using assms by (simp_all add: store_complete_def)
  have cov: "\<forall>n \<in> {1 .. int (length df)}. report_id_of n \<in> processed_reports ?p"
    using assms ld(2) by (simp add: store_complete_def)
  have gap: "df \<noteq> [] \<longrightarrow> identify_missing_reports fs ?p = Inr []"
    using ef missing_numbers_empty [OF cov] by (simp add: identify_missing_reports_def)
  have m: "main w sig fs = Returned True (save_all_progress w ?p fs)"
  proof (cases "df = []")
    case True
    then show ?thesis using ef by (simp add: main_def identify_missing_reports_def Let_def)
  next
    case False
    then show ?thesis using gap by (simp add: main_def Let_def)
  qed
  let ?e = "save_all_progress w ?p fs"
  have calls: "api_calls (fst ?e) = []" by (simp add: save_all_progress_fst ld(3))
  have "\<exists>book'. master_file (snd ?e) = Content book' \<and> mset (results_sheet book') = mset (results_sheet book)"
    using save_all_progress_old_or_new [of w ?p fs] mf ld(1) by auto
  then show ?thesis using m calls gap by (cases ?e) auto
qed


theorem rerun_is_idempotent_witness:
  "store_complete complete_disk catalog3 book3 \<and> catalog3 \<noteq> [] \<and>
   identify_missing_reports complete_disk (load_existing_work complete_disk init_processor) = Inr [] \<and>
   (\<exists>p' fs' book'. main answering None complete_disk = Returned True (p', fs') \<and> api_calls p' = [] \<and>
      master_file fs' = Content book' \<and> mset (results_sheet book') = mset (results_sheet book3))"
proof -
  have h: "store_complete complete_disk catalog3 book3" by code_simp
  have c: "catalog3 \<noteq> []" by (simp add: catalog3_def)
  show ?thesis using rerun_is_idempotent [OF h, of answering None] h c by blast
qed


section \<open>One row per report id\<close>

text \<open>
  Claim C1, as stated, has the persister remove duplicate keys before it writes. On a
  disk whose master file holds the row of \<^verbatim>\<open>Report_1\<close> twice, with a catalog of three
  rows, the loader puts both rows into the buffer, the run handles the two missing
  reports, and the flush writes four rows, two of them for \<^verbatim>\<open>Report_1\<close>; so does the
  final checkpoint of the large batch processor.
\<close>

theorem duplicate_keys_counterexample:
  "all_results (load_existing_work dup_disk init_processor) = [sample_result 1, sample_result 1]
   \<and> stored_results (snd (run_state (main answering None dup_disk)))
       = [sample_result 1, sample_result 1, sample_result 2, sample_result 3]
   \<and> \<not> keys_distinct (stored_results (snd (run_state (main answering None dup_disk))))
   \<and> stored_results (snd (run_state (large_batch_main answering None dup_disk)))
       = [sample_result 1, sample_result 1, sample_result 2, sample_result 3]"
  by code_simp

lemma keys_distinct_sort: "keys_distinct (sort_key f rs) = keys_distinct rs"
proof -
  have "mset (map report_id (sort_key f rs)) = mset (map report_id rs)" by simp
  then show ?thesis unfolding keys_distinct_def by (rule mset_eq_imp_distinct_iff)
qed

lemma save_all_progress_inv: "distinct_inv (p, fs) \<Longrightarrow> distinct_inv (save_all_progress w p fs)"
  using save_all_progress_old_or_new [of w p fs]
  by (auto simp: distinct_inv_def save_all_progress_fst keys_distinct_sort stored_results_def)

lemma save_all_progress_keys:
  "report_id ` set (all_results (fst (save_all_progress w p fs))) = report_id ` set (all_results p)"
  by (simp add: save_all_progress_fst)

lemma process_item_inv:
  assumes "distinct_inv (p, fs)" and "report_id_of n \<notin> report_id ` set (all_results p)"
  shows "distinct_inv (process_item w df i n (p, fs))"
proof -
  have k: "keys_distinct (all_results p @ [make_result w (report_id_of n) row resp])" for row resp
    using assms by (auto simp: distinct_inv_def keys_distinct_def make_result_def)
  have s: "keys_distinct (stored_results fs)" using assms by (simp add: distinct_inv_def)
  have a: "distinct_inv (q, fs) \<Longrightarrow> distinct_inv (if c then save_all_progress w q fs else (q, fs))" for q c
    by (simp add: save_all_progress_inv)
  have f: "distinct_inv (record_failure rid msg name q, fs) = distinct_inv (q, fs)" for rid msg name q
    by (simp add: distinct_inv_def)
  have g: "distinct_inv (q\<lparr>api_calls := x\<rparr>, fs) = distinct_inv (q, fs)" for q x
    by (simp add: distinct_inv_def)
  have r: "distinct_inv (p\<lparr>api_calls := x, all_results := all_results p @ [make_result w (report_id_of n) row resp],
        processed_reports := y\<rparr>, fs)" for x y row resp
    using k s by (simp add: distinct_inv_def)
  show ?thesis
    using assms(1) a f g r
    by (auto simp: process_item_def Let_def split: option.splits api_outcome.splits)
qed

lemma process_item_keys:
  "report_id ` set (all_results (fst (process_item w df i n (p, fs))))
     \<subseteq> insert (report_id_of n) (report_id ` set (all_results p))"
  by (auto simp: process_item_def Let_def save_all_progress_fst record_failure_def make_result_def
      split: option.splits api_outcome.splits)


lemma handle_interrupt_inv: "distinct_inv pf \<Longrightarrow> distinct_inv (handle_interrupt w pf)"
proof -
  assume "distinct_inv pf"
  then have "distinct_inv ((fst pf)\<lparr>interrupted := True\<rparr>, snd pf)" by (simp add: distinct_inv_def)
  then show ?thesis unfolding handle_interrupt_def by (rule save_all_progress_inv)
qed

lemma process_loop_inv:
  "distinct_inv pf \<Longrightarrow> distinct items \<Longrightarrow>
   \<forall>n \<in> set items. report_id_of n \<notin> report_id ` set (all_results (fst pf)) \<Longrightarrow>
   distinct_inv (loop_state (process_loop w df sig i items pf))"
proof (induction items arbitrary: i pf)
  case Nil
  then show ?case by (simp add: loop_state_def handle_interrupt_inv)
next
  case (Cons n items)
  obtain p fs where pf: "pf = (p, fs)" by (cases pf)
  let ?q = "process_item w df i n (p, fs)"
  have q: "distinct_inv ?q" using Cons.prems pf by (intro process_item_inv) simp_all
  have fresh: "\<forall>m \<in> set items. report_id_of m \<notin> report_id ` set (all_results (fst ?q))"
  proof
    fix m assume m: "m \<in> set items"
    then have "m \<noteq> n" using Cons.prems(2) by auto
    then have "report_id_of m \<noteq> report_id_of n" using report_id_of_inj by blast
    moreover have "report_id_of m \<notin> report_id ` set (all_results p)"
      using Cons.prems(3) m pf by simp
    ultimately show "report_id_of m \<notin> report_id ` set (all_results (fst ?q))"
      using process_item_keys [of w df i n p fs] by blast
  qed
  have "distinct_inv (loop_state (process_loop w df sig (i + 1) items ?q))"
    using q fresh Cons.prems(2) by (intro Cons.IH) simp_all
  then show ?case
    using Cons.prems(1) by (simp add: pf loop_state_def handle_interrupt_inv)
qed

lemma process_missing_reports_inv:
  assumes "distinct_inv pf" and "distinct missing"
    and "\<forall>n \<in> set missing. report_id_of n \<notin> report_id ` set (all_results (fst pf))"
  shows "distinct_inv (run_state (process_missing_reports w sig missing pf))"
proof -
  have sv: "distinct_inv (save_all_progress w (fst qf) (snd qf))" if "distinct_inv qf" for qf
    using that save_all_progress_inv [of "fst qf" "snd qf" w] by simp
  show ?thesis
  proof (cases "missing = [] \<or> \<not> api_key_ok w")
    case True
    then show ?thesis using assms(1)
      by (auto simp: process_missing_reports_def run_state_def split: on_disk.splits)
  next
    case False
    show ?thesis
    proof (cases "excel_file (snd pf)")
      case (Content df)
      have l: "distinct_inv (loop_state (process_loop w df sig 0 missing pf))"
        using assms by (rule process_loop_inv)
      show ?thesis
      proof (cases "process_loop w df sig 0 missing pf")
        case (Completed qf)
        then show ?thesis using l sv [of qf] False Content
          by (simp add: process_missing_reports_def run_state_def loop_state_def)
      next
        case (SysExit qf)
        then show ?thesis using l False Content
          by (simp add: process_missing_reports_def run_state_def loop_state_def)
      qed
    qed (use assms(1) False in \<open>simp_all add: process_missing_reports_def run_state_def\<close>)
  qed
qed

lemma load_existing_work_keys:
  "keys_distinct (stored_results fs) \<Longrightarrow>
   keys_distinct (all_results (load_existing_work fs init_processor)) \<and>
   processed_reports (load_existing_work fs init_processor)
     = report_id ` set (all_results (load_existing_work fs init_processor))"
  by (auto simp: load_existing_work_def init_processor_def stored_results_def keys_distinct_def
      Let_def distinct_map_filter split: on_disk.splits)

lemma missing_numbers_fresh:
  "n \<in> set (missing_numbers N ids) \<Longrightarrow> report_id_of n \<notin> ids"
  using processed_numbers_member [of n ids] by (auto simp: missing_numbers_set)

text \<open>
  The large batch processor: a pass appends at most the row of its own item, a
  checkpoint writes the rows in memory or fails and leaves the master file, and the
  emergency backup is not the master file. The recovery script never changes its master
  file.
\<close>

lemma save_checkpoint_stored:
  "stored_results (snd (save_checkpoint w rs c fs)) = stored_results fs \<or>
   stored_results (snd (save_checkpoint w rs c fs)) = rs"
  by (auto simp: save_checkpoint_def stored_results_def pop_fault_def Let_def split: on_disk.splits)

lemma emergency_save_stored [simp]: "stored_results (emergency_save rs fs) = stored_results fs"
  by (simp add: emergency_save_def stored_results_def)

lemma lb_inv_failure [simp]: "lb_inv (lb_failure rid msg b, fs) = lb_inv (b, fs)"
  by (simp add: lb_inv_def lb_failure_def)

lemma lb_inv_calls [simp]: "lb_inv (b\<lparr>lb_api_calls := x\<rparr>, fs) = lb_inv (b, fs)"
  by (simp add: lb_inv_def)

lemma lb_inv_flag [simp]: "lb_inv (b\<lparr>lb_interrupted := x\<rparr>, fs) = lb_inv (b, fs)"
  by (simp add: lb_inv_def)

lemma lb_inv_emergency [simp]: "lb_inv (b, emergency_save rs fs) = lb_inv (b, fs)"
  by (simp add: lb_inv_def)

lemma lb_keys_simps [simp]:
  "lb_keys (lb_failure rid msg b) = lb_keys b"
  "lb_keys (b\<lparr>lb_api_calls := x\<rparr>) = lb_keys b"
  "lb_keys (b\<lparr>lb_interrupted := y\<rparr>) = lb_keys b"
  "lb_keys (b\<lparr>checkpoint_count := z\<rparr>) = lb_keys b"
  by (simp_all add: lb_keys_def lb_failure_def)

lemma lb_checkpoint_inv:
  assumes "lb_inv (b, fs)"
  shows "lb_inv
     (if c
      then let b3 = b\<lparr>checkpoint_count := checkpoint_count b + 1\<rparr>;
               current_total = all_existing_results b3 @ new_results b3;
               saved = save_checkpoint w current_total (checkpoint_count b3) fs
           in if fst saved then (b3, snd saved)
              else (b3, emergency_save (new_results b3) (snd saved))
      else (b, fs))"
  using assms
    save_checkpoint_stored [of w "all_existing_results b @ new_results b" "checkpoint_count b + 1" fs]
  by (auto simp: lb_inv_def Let_def)

lemma lb_checkpoint_keys:
  "lb_keys (fst
     (if c
      then let b3 = b\<lparr>checkpoint_count := checkpoint_count b + 1\<rparr>;
               current_total = all_existing_results b3 @ new_results b3;
               saved = save_checkpoint w current_total (checkpoint_count b3) fs
           in if fst saved then (b3, snd saved)
              else (b3, emergency_save (new_results b3) (snd saved))
      else (b, fs))) = lb_keys b"
  by (simp add: Let_def)

lemma large_batch_item_inv:
  assumes "lb_inv (b, fs)" and "report_id_of n \<notin> lb_keys b"
  shows "lb_inv (large_batch_item w df n (b, fs))"
proof (cases "iloc df (n - 1)")
  case None
  then show ?thesis using assms by (simp add: large_batch_item_def)
next
  case (Some row)
  let ?rid = "report_id_of n"
  let ?b1 = "b\<lparr>lb_api_calls := lb_api_calls b @ [?rid]\<rparr>"
  have b1: "lb_inv (?b1, fs)" using assms by simp
  have fl: "lb_inv (lb_failure ?rid ''API failed'' ?b1, fs)" using b1 by simp
  show ?thesis
  proof (cases "missing_essential row")
    case True
    then show ?thesis using assms Some by (simp add: large_batch_item_def)
  next
    case False
    show ?thesis
    proof (cases "gemini w ?rid")
      case (Raised e)
      then show ?thesis using b1 Some False by (simp add: large_batch_item_def Let_def)
    next
      case NoResponse
      from lb_checkpoint_inv [OF fl, of _ w] show ?thesis
        using Some False NoResponse by (simp add: large_batch_item_def Let_def split: if_splits)
    next
      case (Response resp)
      show ?thesis
      proof (cases "resp = []")
        case True
        from lb_checkpoint_inv [OF fl, of _ w] show ?thesis
          using Some False Response True by (simp add: large_batch_item_def Let_def split: if_splits)
      next
        case nonempty: False
        let ?b2 = "?b1\<lparr>new_results := new_results ?b1 @ [make_result w ?rid row resp]\<rparr>"
        have "lb_inv (?b2, fs)"
          using assms by (auto simp: lb_inv_def lb_keys_def keys_distinct_def make_result_def)
        from lb_checkpoint_inv [OF this,
            of "length (new_results ?b2) > 0 \<and> length (new_results ?b2) mod checkpoint_frequency = 0" w]
        show ?thesis
          using Some False Response nonempty
          by (simp add: large_batch_item_def Let_def split: if_splits)
      qed
    qed
  qed
qed

lemma large_batch_item_keys:
  "lb_keys (fst (large_batch_item w df n (b, fs))) \<subseteq> insert (report_id_of n) (lb_keys b)"
  by (auto simp: large_batch_item_def Let_def lb_keys_def lb_failure_def make_result_def
      split: option.splits api_outcome.splits if_splits)

lemma large_batch_loop_inv:
  "lb_inv bf \<Longrightarrow> distinct items \<Longrightarrow> \<forall>n \<in> set items. report_id_of n \<notin> lb_keys (fst bf) \<Longrightarrow>
   lb_inv (loop_state (large_batch_loop w df sig i items bf))"
proof (induction items arbitrary: i bf)
  case Nil
  then show ?case by (cases bf) (simp add: loop_state_def)
next
  case (Cons n items)
  obtain b fs where bf: "bf = (b, fs)" by (cases bf)
  let ?b = "if sig = Some i then b\<lparr>lb_interrupted := True\<rparr> else b"
  let ?q = "large_batch_item w df n (?b, fs)"
  have bi: "lb_inv (?b, fs)" using Cons.prems(1) bf by simp
  have bk: "lb_keys ?b = lb_keys b" by simp
  have q: "lb_inv ?q" using bi Cons.prems(3) bf bk by (intro large_batch_item_inv) simp_all
  have fresh: "\<forall>m \<in> set items. report_id_of m \<notin> lb_keys (fst ?q)"
  proof
    fix m assume m: "m \<in> set items"
    then have "m \<noteq> n" using Cons.prems(2) by auto
    then have "report_id_of m \<noteq> report_id_of n" using report_id_of_inj by blast
    moreover have "report_id_of m \<notin> lb_keys ?b" using Cons.prems(3) m bf bk by simp
    ultimately show "report_id_of m \<notin> lb_keys (fst ?q)"
      using large_batch_item_keys [of w df n ?b fs] by blast
  qed
  have "lb_inv (loop_state (large_batch_loop w df sig (i + 1) items ?q))"
    using q fresh Cons.prems(2) by (intro Cons.IH) simp_all
  then show ?case
    using bi by (auto simp: bf loop_state_def Let_def)
qed

lemma process_large_batch_inv:
  assumes "keys_distinct (stored_results fs)" and "distinct batch"
    and "\<forall>n \<in> set batch. report_id_of n \<notin> report_id ` set (stored_results fs)"
  shows "keys_distinct (stored_results (snd (run_state (process_large_batch w sig batch fs))))"
proof -
  let ?b = "init_large_batch (stored_results fs)"
  have i: "lb_inv (?b, fs)" using assms(1) by (simp add: lb_inv_def init_large_batch_def)
  have k: "\<forall>n \<in> set batch. report_id_of n \<notin> lb_keys (fst (?b, fs))"
    using assms(3) by (simp add: lb_keys_def init_large_batch_def)
  have b: "master_file fs \<noteq> Corrupt \<Longrightarrow>
      init_large_batch (case master_file fs of Content df_baseline \<Rightarrow> results_sheet df_baseline | _ \<Rightarrow> []) = ?b"
    by (simp add: stored_results_def split: on_disk.splits)
  show ?thesis
  proof (cases "batch = [] \<or> master_file fs = Corrupt \<or> \<not> api_key_ok w")
    case True
    then show ?thesis using assms(1)
      by (auto simp: process_large_batch_def run_state_def Let_def split: on_disk.splits)
  next
    case False
    then have nc: "master_file fs \<noteq> Corrupt" by simp
    show ?thesis
    proof (cases "excel_file fs")
      case (Content df)
      have l: "lb_inv (loop_state (large_batch_loop w df sig 0 batch (?b, fs)))"
        using i assms(2) k by (rule large_batch_loop_inv)
      show ?thesis
      proof (cases "large_batch_loop w df sig 0 batch (?b, fs)")
        case (SysExit bf)
        then show ?thesis using l False Content b [OF nc]
          by (auto simp: process_large_batch_def run_state_def loop_state_def lb_inv_def Let_def
              split: on_disk.splits)
      next
        case (Completed bf)
        have "keys_distinct (stored_results (snd (save_checkpoint w
                (all_existing_results (fst bf) @ new_results (fst bf)) (checkpoint_count (fst bf) + 1) (snd bf))))"
          using l Completed
            save_checkpoint_stored [of w "all_existing_results (fst bf) @ new_results (fst bf)"
              "checkpoint_count (fst bf) + 1" "snd bf"]
          by (auto simp: loop_state_def lb_inv_def)
        then show ?thesis using Completed False Content b [OF nc]
          by (auto simp: process_large_batch_def run_state_def Let_def split: on_disk.splits)
      qed
    qed (use assms(1) False in \<open>auto simp: process_large_batch_def run_state_def Let_def split: on_disk.splits\<close>)
  qed
qed

lemma large_batch_main_inv:
  assumes "keys_distinct (stored_results fs)"
  shows "keys_distinct (stored_results (snd (run_state (large_batch_main w sig fs))))"
proof (cases "get_current_status fs")
  case (Inl e)
  then show ?thesis using assms by (simp add: large_batch_main_def run_state_def)
next
  case (Inr status)
  let ?ids = "report_id ` set (stored_results fs)"
  obtain N where m: "status_missing_numbers status = missing_numbers N ?ids"
    using Inr
    by (auto simp: get_current_status_def stored_results_def Let_def split: on_disk.splits if_splits)
  let ?batch = "take 100 (status_missing_numbers status)"
  have d: "distinct ?batch" using m missing_numbers_sorted by simp
  have f: "\<forall>n \<in> set ?batch. report_id_of n \<notin> ?ids"
    using m missing_numbers_fresh by (auto dest: in_set_takeD)
  note pl = process_large_batch_inv [OF assms d f, of w sig]
  show ?thesis
  proof (cases "status_missing_numbers status = []")
    case True
    then show ?thesis using Inr assms by (simp add: large_batch_main_def run_state_def)
  next
    case False
    then show ?thesis using Inr pl
      by (cases "process_large_batch w sig ?batch fs")
        (auto simp: large_batch_main_def run_state_def split: sum.splits)
  qed
qed


lemma save_recovery_state_master [simp]:
  "master_file (save_recovery_state w p fs) = master_file fs"
  by (simp add: save_recovery_state_def pop_fault_def Let_def)

lemma save_master_results_master:
  "save_master_results w p fs = Inr saved \<Longrightarrow> master_file (snd (snd saved)) = master_file fs"
  using save_master_results_never_commits [of w p fs "fst saved" "fst (snd saved)" "snd (snd saved)"]
  by (auto split: if_splits)

lemma recovery_item_master:
  "master_file (snd (recovery_item w df i n pf)) = master_file (snd pf)"
proof -
  have s: "master_file (snd (case save_master_results w q (snd pf) of
               Inl e \<Rightarrow> (f e, snd pf)
             | Inr saved \<Rightarrow> (fst (snd saved), save_recovery_state w (fst (snd saved)) (snd (snd saved)))))
           = master_file (snd pf)" for q f
    using save_master_results_master [of w q "snd pf"]
    by (cases "save_master_results w q (snd pf)") simp_all
  show ?thesis
    by (simp add: recovery_item_def Let_def s split: option.splits api_outcome.splits)
qed

lemma recovery_loop_master:
  "master_file (snd (loop_state (recovery_loop w df sig i items pf))) = master_file (snd pf)"
  by (induction items arbitrary: i pf) (simp_all add: loop_state_def recovery_item_master)

lemma recovery_final_save_master:
  "master_file (snd (run_state (recovery_final_save w pf))) = master_file (snd pf)"
  using save_master_results_master [of w "fst pf" "snd pf"]
  by (cases "save_master_results w (fst pf) (snd pf)")
    (simp_all add: recovery_final_save_def run_state_def Let_def)

lemma recovery_process_missing_reports_master:
  "master_file (snd (run_state (recovery_process_missing_reports w sig missing pf))) = master_file (snd pf)"
proof (cases "missing = [] \<or> \<not> api_key_ok w")
  case True
  then show ?thesis
    by (auto simp: recovery_process_missing_reports_def run_state_def split: on_disk.splits)
next
  case False
  show ?thesis
  proof (cases "excel_file (snd pf)")
    case (Content df)
    note l = recovery_loop_master [of w df sig 0 missing pf]
    show ?thesis
    proof (cases "recovery_loop w df sig 0 missing pf")
      case (SysExit qf)
      then show ?thesis using l False Content
        by (simp add: recovery_process_missing_reports_def run_state_def loop_state_def)
    next
      case (Completed qf)
      then show ?thesis using l False Content save_master_results_master [of w "fst qf" "snd qf"]
        by (cases "save_master_results w (fst qf) (snd qf)")
          (simp_all add: recovery_process_missing_reports_def run_state_def loop_state_def)
    qed
  qed (use False in \<open>simp_all add: recovery_process_missing_reports_def run_state_def\<close>)
qed

lemma recovery_main_master:
  "master_file (snd (run_state (recovery_main w sig fs))) = master_file fs"
proof -
  let ?r = "recovery_load_existing_work fs init_processor"
  show ?thesis
  proof (cases "identify_missing_reports fs ?r")
    case (Inl e)
    then show ?thesis by (simp add: recovery_main_def run_state_def Let_def)
  next
    case (Inr missing)
    show ?thesis
    proof (cases "missing = []")
      case True
      then show ?thesis using Inr recovery_final_save_master [of w "(?r, fs)"]
        by (simp add: recovery_main_def Let_def)
    next
      case False
      note pm = recovery_process_missing_reports_master [of w sig missing "(?r, fs)"]
      show ?thesis
      proof (cases "recovery_process_missing_reports w sig missing (?r, fs)")
        case (Returned ok qf)
        then show ?thesis using Inr False pm recovery_final_save_master [of w qf]
          by (simp add: recovery_main_def Let_def run_state_def)
      next
        case (Exited qf)
        then show ?thesis using Inr False pm by (simp add: recovery_main_def Let_def run_state_def)
      next
        case (Raises e qf)
        then show ?thesis using Inr False pm by (simp add: recovery_main_def Let_def run_state_def)
      qed
    qed
  qed
qed

text \<open>
  Claim C1, amended. No persister removes a duplicate: \<^verbatim>\<open>save_all_progress\<close> writes
  the buffer sorted by report number, which neither adds nor removes a duplicate key,
  \<^verbatim>\<open>save_checkpoint\<close> writes the rows it is given, each of them may fail and leave the
  rows of the master file alone, and \<^verbatim>\<open>save_master_results\<close> always leaves them
  alone. What keeps the keys apart is the work list: the loader takes each stored row
  once, and the gap resolver hands out each missing number once and none that has a row
  already. So a run of \<^verbatim>\<open>main\<close> of the bulletproof processor or of the large batch
  processor that starts from a store with at most one row per report id ends with such a
  store, whenever the signal arrives and whatever faults the disk has in stock; a run of
  the recovery script ends with the rows it found.
\<close>

theorem store_keys_stay_distinct:
  "keys_distinct (sort_key extract_number rs) = keys_distinct rs \<and>
   (stored_results (snd (save_all_progress w p fs)) = stored_results fs \<or>
    stored_results (snd (save_all_progress w p fs)) = sort_key extract_number (all_results p)) \<and>
   (stored_results (snd (save_checkpoint w rs c fs)) = stored_results fs \<or>
    stored_results (snd (save_checkpoint w rs c fs)) = rs) \<and>
   (\<forall>saved. save_master_results w p fs = Inr saved \<longrightarrow>
      stored_results (snd (snd saved)) = stored_results fs) \<and>
   stored_results (snd (run_state (recovery_main w sig fs))) = stored_results fs \<and>
   (keys_distinct (stored_results fs) \<longrightarrow>
      keys_distinct (stored_results (snd (run_state (main w sig fs)))) \<and>
      keys_distinct (stored_results (snd (run_state (large_batch_main w sig fs)))))"
proof (intro conjI impI allI)
  show "keys_distinct (sort_key extract_number rs) = keys_distinct rs" by (rule keys_distinct_sort)
  show "stored_results (snd (save_all_progress w p fs)) = stored_results fs \<or>
    stored_results (snd (save_all_progress w p fs)) = sort_key extract_number (all_results p)"
    using save_all_progress_old_or_new [of w p fs] by (auto simp: stored_results_def)
  show "stored_results (snd (save_checkpoint w rs c fs)) = stored_results fs \<or>
    stored_results (snd (save_checkpoint w rs c fs)) = rs"
    by (rule save_checkpoint_stored)
  show "stored_results (snd (snd saved)) = stored_results fs"
    if "save_master_results w p fs = Inr saved" for saved
    using save_master_results_master [OF that] by (simp add: stored_results_def)
  show "stored_results (snd (run_state (recovery_main w sig fs))) = stored_results fs"
    using recovery_main_master [of w sig fs] by (simp add: stored_results_def)
  assume d: "keys_distinct (stored_results fs)"
  show "keys_distinct (stored_results (snd (run_state (large_batch_main w sig fs))))"
    using d by (rule large_batch_main_inv)
  let ?p = "load_existing_work fs init_processor"
  note ld = load_existing_work_keys [OF d]
  have i: "distinct_inv (?p, fs)" using ld d by (simp add: distinct_inv_def)
  have s: "distinct_inv (save_all_progress w ?p fs)" using i by (rule save_all_progress_inv)
  have "distinct_inv (run_state (main w sig fs))"
  proof (cases "identify_missing_reports fs ?p")
    case (Inl e)
    then show ?thesis using s by (simp add: main_def run_state_def Let_def)
  next
    case (Inr missing)
    then obtain N where m: "missing = missing_numbers N (processed_reports ?p)"
      by (auto simp: identify_missing_reports_def split: on_disk.splits if_splits)
    have dm: "distinct missing" using m missing_numbers_sorted by simp
    have fr: "\<forall>n \<in> set missing. report_id_of n \<notin> report_id ` set (all_results (fst (?p, fs)))"
      using m ld missing_numbers_fresh by auto
    note pm = process_missing_reports_inv [OF i dm fr, of w sig]
    have sv: "distinct_inv (save_all_progress w (fst qf) (snd qf))" if "distinct_inv qf" for qf
      using that save_all_progress_inv [of "fst qf" "snd qf" w] by simp
    show ?thesis
    proof (cases "missing = []")
      case True
      then show ?thesis using s Inr by (simp add: main_def run_state_def Let_def)
    next
      case False
      then show ?thesis using Inr pm sv
        by (cases "process_missing_reports w sig missing (?p, fs)")
          (auto simp: main_def run_state_def Let_def)
    qed
  qed
  then show "keys_distinct (stored_results (snd (run_state (main w sig fs))))"
    by (simp add: distinct_inv_def)
qed

theorem store_keys_stay_distinct_witness:
  "keys_distinct (stored_results partial_disk) \<and>
   keys_distinct (stored_results (snd (run_state (main answering None partial_disk)))) \<and>
   length (stored_results (snd (run_state (main answering None partial_disk)))) = 3 \<and>
   keys_distinct (stored_results (snd (run_state (large_batch_main answering None partial_disk)))) \<and>
   length (stored_results (snd (run_state (large_batch_main answering None partial_disk)))) = 3 \<and>
   stored_results (snd (run_state (recovery_main answering None partial_disk))) = [sample_result 2]"
proof -
  have h: "keys_distinct (stored_results partial_disk)" by code_simp
  have l: "length (stored_results (snd (run_state (main answering None partial_disk)))) = 3"
    "length (stored_results (snd (run_state (large_batch_main answering None partial_disk)))) = 3"
    "stored_results partial_disk = [sample_result 2]"
    by code_simp+
  show ?thesis
    using store_keys_stay_distinct [of "[]" answering init_processor partial_disk 0 None] h l by simp
qed

section \<open>Staleness window of the large batch processor\<close>

text \<open>
  The checkpoint test of \<^verbatim>\<open>process_large_batch\<close> follows the append of a result in the
  same pass and has \<^verbatim>\<open>len(new_results) % 10 == 0\<close> as its condition; the passes that
  leave the body early append nothing. With a readable, non-empty catalog and no failing write, fewer than
  \<open>checkpoint_frequency\<close> results are in memory only, after any number of items.
\<close>

lemma catalog_ok_iff: "catalog_ok fs = (\<exists>df. excel_file fs = Content df \<and> df \<noteq> [])"
  by (simp add: catalog_ok_def split: on_disk.splits)

lemma round_down_step:
  "Suc n mod 10 \<noteq> 0 \<Longrightarrow> Suc n - Suc n mod 10 = n - n mod 10"
  by (simp add: mod_Suc split: if_splits)

lemma saved_prefix_append:
  "Suc (length (new_results b)) mod checkpoint_frequency \<noteq> 0 \<Longrightarrow>
   saved_prefix (b\<lparr>new_results := new_results b @ [r]\<rparr>) = saved_prefix b"
  using round_down_step [of "length (new_results b)"]
  by (simp add: saved_prefix_def checkpoint_frequency_def)

lemma saved_prefix_full:
  "length (new_results b) mod checkpoint_frequency = 0 \<Longrightarrow>
   saved_prefix b = all_existing_results b @ new_results b"
  by (simp add: saved_prefix_def)

lemma save_checkpoint_ok:
  "pending_faults fs = [] \<Longrightarrow> excel_file fs = Content df \<Longrightarrow> df \<noteq> [] \<Longrightarrow>
   fst (save_checkpoint w rs c fs) \<and> stored_results (snd (save_checkpoint w rs c fs)) = rs \<and>
   pending_faults (snd (save_checkpoint w rs c fs)) = [] \<and>
   catalog_ok (snd (save_checkpoint w rs c fs))"
  by (simp add: save_checkpoint_def next_fault_def pop_fault_def stored_results_def catalog_ok_def Let_def)

lemma window_inv_failure [simp]: "window_inv (lb_failure rid msg b, fs) = window_inv (b, fs)"
  by (simp add: window_inv_def saved_prefix_def lb_failure_def)

lemma window_inv_calls [simp]: "window_inv (b\<lparr>lb_api_calls := x\<rparr>, fs) = window_inv (b, fs)"
  by (simp add: window_inv_def saved_prefix_def)

lemma window_inv_emergency [simp]: "window_inv (b, emergency_save rs fs) = window_inv (b, fs)"
  by (simp add: window_inv_def emergency_save_def stored_results_def catalog_ok_def)

lemma window_due_failure [simp]: "window_due (lb_failure rid msg b, fs) = window_due (b, fs)"
  by (simp add: window_due_def saved_prefix_def lb_failure_def)

lemma window_inv_due: "window_inv bf \<Longrightarrow> window_due bf"
  by (simp add: window_inv_def window_due_def)

lemma window_due_append:
  assumes "window_inv (b, fs)"
  shows "window_due (b\<lparr>lb_api_calls := x, new_results := new_results b @ [r]\<rparr>, fs)"
proof (cases "Suc (length (new_results b)) mod checkpoint_frequency = 0")
  case True
  then show ?thesis using assms by (simp add: window_inv_def window_due_def)
next
  case False
  then show ?thesis
    using assms saved_prefix_append [OF False, of r]
    by (simp add: window_inv_def window_due_def saved_prefix_def)
qed

lemma checkpoint_step:
  assumes "window_due (b, fs)"
  shows "window_inv
     (if length (new_results b) > 0 \<and> length (new_results b) mod checkpoint_frequency = 0
      then let b3 = b\<lparr>checkpoint_count := checkpoint_count b + 1\<rparr>;
               current_total = all_existing_results b3 @ new_results b3;
               saved = save_checkpoint w current_total (checkpoint_count b3) fs
           in if fst saved then (b3, snd saved)
              else (b3, emergency_save (new_results b3) (snd saved))
      else (b, fs))"
proof -
  obtain df where df: "pending_faults fs = []" "excel_file fs = Content df" "df \<noteq> []"
    using assms by (auto simp: window_due_def catalog_ok_iff)
  note ok = save_checkpoint_ok [OF df, of w]
  show ?thesis using assms ok
    by (auto simp: Let_def window_inv_def window_due_def saved_prefix_def)
qed

lemma large_batch_item_window:
  assumes "window_inv (b, fs)"
  shows "window_inv (large_batch_item w df n (b, fs))"
proof (cases "iloc df (n - 1)")
  case None
  then show ?thesis using assms by (simp add: large_batch_item_def)
next
  case (Some row)
  let ?rid = "report_id_of n"
  let ?b1 = "b\<lparr>lb_api_calls := lb_api_calls b @ [?rid]\<rparr>"
  have b1: "window_inv (?b1, fs)" using assms by simp
  show ?thesis
  proof (cases "missing_essential row")
    case True
    then show ?thesis using assms Some by (simp add: large_batch_item_def)
  next
    case False
    show ?thesis
    proof (cases "gemini w ?rid")
      case (Raised e)
      then show ?thesis using b1 Some False by (simp add: large_batch_item_def Let_def)
    next
      case NoResponse
      have "window_due (lb_failure ?rid ''API failed'' ?b1, fs)"
        using b1 by (simp add: window_inv_due)
      from checkpoint_step [OF this, of w] show ?thesis
        using Some False NoResponse by (simp add: large_batch_item_def Let_def)
    next
      case (Response resp)
      show ?thesis
      proof (cases "resp = []")
        case True
        have "window_due (lb_failure ?rid ''API failed'' ?b1, fs)"
          using b1 by (simp add: window_inv_due)
        from checkpoint_step [OF this, of w] show ?thesis
          using Some False Response True by (simp add: large_batch_item_def Let_def)
      next
        case nonempty: False
        have "window_due (?b1\<lparr>new_results := new_results ?b1 @ [make_result w ?rid row resp]\<rparr>, fs)"
          using window_due_append [OF assms] by simp
        from checkpoint_step [OF this, of w] show ?thesis
          using Some False Response nonempty
          by (simp add: large_batch_item_def Let_def split: if_splits)
      qed
    qed
  qed
qed

lemma lb_after_items_window: "window_inv bf \<Longrightarrow> window_inv (lb_after_items w df items bf)"
proof (induction items arbitrary: bf)
  case Nil
  then show ?case by simp
next
  case (Cons n items)
  obtain b fs where "bf = (b, fs)" by (cases bf)
  with Cons show ?case using large_batch_item_window [of b fs w df n] by simp
qed

lemma large_batch_window:
  assumes "window_inv bf"
  shows "length (all_existing_results (fst (lb_after_items w df items bf)))
           + length (new_results (fst (lb_after_items w df items bf)))
         < length (stored_results (snd (lb_after_items w df items bf))) + checkpoint_frequency"
proof -
  let ?bf = "lb_after_items w df items bf"
  have "window_inv ?bf" using assms by (rule lb_after_items_window)
  then have "stored_results (snd ?bf) = saved_prefix (fst ?bf)" by (simp add: window_inv_def)
  then show ?thesis
    by (simp add: saved_prefix_def checkpoint_frequency_def)
qed

lemma large_batch_window_start: "catalog_ok fs \<Longrightarrow> pending_faults fs = [] \<Longrightarrow>
   window_inv (init_large_batch (stored_results fs), fs)"
  by (simp add: window_inv_def saved_prefix_def init_large_batch_def)

lemma large_batch_window_example:
  "window_inv (init_large_batch [], fresh_disk catalog15) \<and>
   length (new_results (fst (lb_after_items answering catalog15 [1, 2, 3, 4, 5, 6, 7, 8, 9, 10, 11, 12, 13, 14, 15]
      (init_large_batch [], fresh_disk catalog15)))) = 15 \<and>
   length (stored_results (snd (lb_after_items answering catalog15 [1, 2, 3, 4, 5, 6, 7, 8, 9, 10, 11, 12, 13, 14, 15]
      (init_large_batch [], fresh_disk catalog15)))) = 10"
  by code_simp

end
